theory Spec2Isabelle
  imports Complex_Main
begin

section \<open>Values and errors\<close>

text \<open>
  The notebook \<^verbatim>\<open>unit5/array_network_roses-exercise.ipynb\<close> computes on NumPy
  \<^verbatim>\<open>float64\<close> arrays. A float is modelled as a real number or one of the three
  special values that NumPy produces instead of raising: the two infinities and NaN.
  The element-wise array operations of this section are exact on finite values: they
  neither round nor overflow. A division by zero gives an infinity or NaN as NumPy's
  does (a zero divisor counts as \<^verbatim>\<open>+0.0\<close>: every divisor of this notebook is a
  standard deviation, a maximum of absolute values or a positive count). The two scalar
  cells that a single rounding decides (the maximum lag and the backazimuths) use the
  rounded operations of the section on rounding instead. Every concrete evaluation of
  the array code below is at small integers and dyadic fractions, where \<^verbatim>\<open>float64\<close>
  arithmetic is exact as well; where a theorem gives the result for arbitrary finite
  samples by a formula over the reals, it describes the code up to rounding. Python
  exceptions are values of \<open>error\<close>.
\<close>

datatype error = ValueError | IndexError | OverflowError

datatype npfloat = Fin real | PInf | NInf | NaN

fun np_neg :: "npfloat \<Rightarrow> npfloat" where
  "np_neg (Fin x) = Fin (- x)"
| "np_neg PInf = NInf"
| "np_neg NInf = PInf"
| "np_neg NaN = NaN"

fun np_add :: "npfloat \<Rightarrow> npfloat \<Rightarrow> npfloat" where
  "np_add (Fin x) (Fin y) = Fin (x + y)"
| "np_add NaN _ = NaN"
| "np_add _ NaN = NaN"
| "np_add PInf NInf = NaN"
| "np_add NInf PInf = NaN"
| "np_add PInf _ = PInf"
| "np_add _ PInf = PInf"
| "np_add NInf _ = NInf"
| "np_add _ NInf = NInf"

definition np_sub :: "npfloat \<Rightarrow> npfloat \<Rightarrow> npfloat" where
  "np_sub x y = np_add x (np_neg y)"

fun np_mul :: "npfloat \<Rightarrow> npfloat \<Rightarrow> npfloat" where
  "np_mul (Fin x) (Fin y) = Fin (x * y)"
| "np_mul NaN _ = NaN"
| "np_mul _ NaN = NaN"
| "np_mul PInf (Fin y) = (if y = 0 then NaN else if 0 < y then PInf else NInf)"
| "np_mul NInf (Fin y) = (if y = 0 then NaN else if 0 < y then NInf else PInf)"
| "np_mul (Fin x) PInf = (if x = 0 then NaN else if 0 < x then PInf else NInf)"
| "np_mul (Fin x) NInf = (if x = 0 then NaN else if 0 < x then NInf else PInf)"
| "np_mul PInf PInf = PInf"
| "np_mul PInf NInf = NInf"
| "np_mul NInf PInf = NInf"
| "np_mul NInf NInf = PInf"

fun np_div :: "npfloat \<Rightarrow> npfloat \<Rightarrow> npfloat" where
  "np_div (Fin x) (Fin y) =
     (if y = 0 then (if x = 0 then NaN else if 0 < x then PInf else NInf)
      else Fin (x / y))"
| "np_div NaN _ = NaN"
| "np_div _ NaN = NaN"
| "np_div (Fin x) PInf = Fin 0"
| "np_div (Fin x) NInf = Fin 0"
| "np_div PInf (Fin y) = (if 0 \<le> y then PInf else NInf)"
| "np_div NInf (Fin y) = (if 0 \<le> y then NInf else PInf)"
| "np_div PInf PInf = NaN"
| "np_div PInf NInf = NaN"
| "np_div NInf PInf = NaN"
| "np_div NInf NInf = NaN"

fun np_abs :: "npfloat \<Rightarrow> npfloat" where
  "np_abs (Fin x) = Fin \<bar>x\<bar>"
| "np_abs PInf = PInf"
| "np_abs NInf = PInf"
| "np_abs NaN = NaN"

fun np_sqrt :: "npfloat \<Rightarrow> npfloat" where
  "np_sqrt (Fin x) = (if x < 0 then NaN else Fin (sqrt x))"
| "np_sqrt PInf = PInf"
| "np_sqrt NInf = NaN"
| "np_sqrt NaN = NaN"

text \<open>The larger of two floats as \<^verbatim>\<open>np.max\<close> sees it: NaN wins over everything.\<close>

fun np_max2 :: "npfloat \<Rightarrow> npfloat \<Rightarrow> npfloat" where
  "np_max2 (Fin x) (Fin y) = Fin (max x y)"
| "np_max2 NaN _ = NaN"
| "np_max2 _ NaN = NaN"
| "np_max2 PInf _ = PInf"
| "np_max2 _ PInf = PInf"
| "np_max2 NInf y = y"
| "np_max2 x NInf = x"

section \<open>NumPy reductions and Python slices\<close>

text \<open>\<^verbatim>\<open>np.sum\<close>: the sum of an array, \<^verbatim>\<open>0.0\<close> for the empty one.\<close>

definition np_sum :: "npfloat list \<Rightarrow> npfloat" where
  "np_sum xs = foldr np_add xs (Fin 0)"

text \<open>\<^verbatim>\<open>np.max\<close>: raises ValueError on an empty array.\<close>

definition np_max :: "npfloat list \<Rightarrow> error + npfloat" where
  "np_max xs = (case xs of [] \<Rightarrow> Inl ValueError | x # r \<Rightarrow> Inr (foldl np_max2 x r))"

text \<open>\<^verbatim>\<open>np.mean\<close>: sum over count; of the empty array it is \<^verbatim>\<open>0.0 / 0 = nan\<close>.\<close>

definition np_mean :: "npfloat list \<Rightarrow> npfloat" where
  "np_mean xs = np_div (np_sum xs) (Fin (real (length xs)))"

text \<open>\<^verbatim>\<open>np.std\<close> (population form, \<^verbatim>\<open>ddof = 0\<close>): the square root of the mean of
  the squared deviations from the mean.\<close>

definition np_std :: "npfloat list \<Rightarrow> npfloat" where
  "np_std xs =
     (let m = np_mean xs
      in np_sqrt (np_mean (map (\<lambda>x. np_mul (np_sub x m) (np_sub x m)) xs)))"

text \<open>
  A Python slice \<^verbatim>\<open>xs[s:e]\<close> with integer bounds: a negative bound counts from the end,
  and both bounds are clamped into \<open>0 .. len(xs)\<close>; nothing is raised.
\<close>

definition slice_bound :: "int \<Rightarrow> int \<Rightarrow> nat" where
  "slice_bound n k = nat (if k < 0 then max 0 (k + n) else min k n)"

definition py_slice :: "'a list \<Rightarrow> int \<Rightarrow> int \<Rightarrow> 'a list" where
  "py_slice xs s e =
     (let n = int (length xs); s' = slice_bound n s; e' = slice_bound n e
      in take (e' - s') (drop s' xs))"

text \<open>
  \<^verbatim>\<open>np.correlate(a, v, 'full')\<close>: entry \<open>j\<close> is the sum over \<open>n\<close> of
  \<open>a[n + j - (len(v) - 1)] * v[n]\<close>, over the \<open>n\<close> for which both indices exist.
  An empty operand raises ValueError.
\<close>

definition correlate_entry :: "npfloat list \<Rightarrow> npfloat list \<Rightarrow> nat \<Rightarrow> npfloat" where
  "correlate_entry a v j =
     np_sum [np_mul (a ! (n + j + 1 - length v)) (v ! n).
             n \<leftarrow> [0..<length v], length v \<le> n + j + 1, n + j + 1 - length v < length a]"

definition np_correlate_full :: "npfloat list \<Rightarrow> npfloat list \<Rightarrow> error + npfloat list" where
  "np_correlate_full a v =
     (if a = [] \<or> v = [] then Inl ValueError
      else Inr (map (correlate_entry a v) [0..<length a + length v - 1]))"

section \<open>The normalized cross-correlation\<close>

text \<open>
  \<^verbatim>\<open>
  def norm_xcorr(a, b, max_lag=10):
      a = (a - np.mean(a)) / (np.std(a) * len(a))
      b = (b - np.mean(b)) / (np.std(b))
      xcorr = np.correlate(a, b, 'full')
      i = len(a)-1                       # Zeroth lag
      xcorr = xcorr[i-max_lag:i+max_lag]
      return np.max(xcorr)
  \<close>
\<close>

definition normalize_a :: "npfloat list \<Rightarrow> npfloat list" where
  "normalize_a a =
     map (\<lambda>x. np_div (np_sub x (np_mean a)) (np_mul (np_std a) (Fin (real (length a))))) a"

definition normalize_b :: "npfloat list \<Rightarrow> npfloat list" where
  "normalize_b b = map (\<lambda>x. np_div (np_sub x (np_mean b)) (np_std b)) b"

definition norm_xcorr :: "npfloat list \<Rightarrow> npfloat list \<Rightarrow> int \<Rightarrow> error + npfloat" where
  "norm_xcorr a b max_lag =
     (let a' = normalize_a a; b' = normalize_b b
      in case np_correlate_full a' b' of
           Inl e \<Rightarrow> Inl e
         | Inr xcorr \<Rightarrow>
             (let i = int (length a') - 1
              in np_max (py_slice xcorr (i - max_lag) (i + max_lag))))"

section \<open>The sliding similarity loop\<close>

text \<open>
  \<^verbatim>\<open>int(n/d)\<close> for an integer \<open>n\<close> and a positive constant \<open>d\<close>: true division, then
  truncation towards zero.
\<close>

definition int_quot :: "int \<Rightarrow> int \<Rightarrow> int" where
  "int_quot n d = (if 0 \<le> n then n div d else - ((- n) div d))"

text \<open>
  \<^verbatim>\<open>
  C = []; L = []
  l = 0
  while l < nsamp-nsamp_win:
      data_l = data[:,l:l+nsamp_win]
      c1 = norm_xcorr(data_l[0,:], data_l[1,:], max_lag=i_max)
      c2 = norm_xcorr(data_l[0,:], data_l[2,:], max_lag=i_max)
      C.append((c1+c2)/2.)
      L.append(l + int(nsamp_win/2))
      l = l + int(nsamp_win/4)
  \<close>
  \<open>data\<close> is the \<open>3 \<times> nsamp\<close> array of the reference station (row 0) and its two
  neighbours. The loop does not end when the step \<^verbatim>\<open>int(nsamp_win/4)\<close> is not positive
  and nothing is raised: the result is then \<open>None\<close>. An exception of \<open>norm_xcorr\<close>
  ends the loop with \<open>Some (Inl e)\<close>.
\<close>

partial_function (option) similarity_loop ::
  "npfloat list \<times> npfloat list \<times> npfloat list \<Rightarrow> int \<Rightarrow> int \<Rightarrow> int \<Rightarrow> int \<Rightarrow>
   npfloat list \<Rightarrow> int list \<Rightarrow> (error + npfloat list \<times> int list) option"
where
  "similarity_loop data nsamp nsamp_win i_max l C L =
     (if l < nsamp - nsamp_win then
        (case data of (d0, d1, d2) \<Rightarrow>
          (case norm_xcorr (py_slice d0 l (l + nsamp_win)) (py_slice d1 l (l + nsamp_win)) i_max of
             Inl e \<Rightarrow> Some (Inl e)
           | Inr c1 \<Rightarrow>
              (case norm_xcorr (py_slice d0 l (l + nsamp_win)) (py_slice d2 l (l + nsamp_win)) i_max of
                 Inl e \<Rightarrow> Some (Inl e)
               | Inr c2 \<Rightarrow>
                   similarity_loop data nsamp nsamp_win i_max (l + int_quot nsamp_win 4)
                     (C @ [np_div (np_add c1 c2) (Fin 2)])
                     (L @ [l + int_quot nsamp_win 2]))))
      else Some (Inr (C, L)))"

definition similarity_trace ::
  "npfloat list \<times> npfloat list \<times> npfloat list \<Rightarrow> nat \<Rightarrow> int \<Rightarrow> int \<Rightarrow>
   (error + npfloat list \<times> int list) option" where
  "similarity_trace data nsamp nsamp_win i_max =
     similarity_loop data (int nsamp) nsamp_win i_max 0 [] []"

section \<open>The network stack\<close>

text \<open>
  \<^verbatim>\<open>st[j].data/np.max(np.abs(st[j].data))\<close>: a trace (finite samples) divided by its
  largest absolute amplitude; \<^verbatim>\<open>np.max\<close> raises on a trace without samples.
\<close>

definition scale_trace :: "real list \<Rightarrow> error + npfloat list" where
  "scale_trace x =
     (case np_max (map (\<lambda>v. np_abs (Fin v)) x) of
        Inl e \<Rightarrow> Inl e
      | Inr m \<Rightarrow> Inr (map (\<lambda>v. np_div (Fin v) m) x))"

text \<open>
  \<^verbatim>\<open>data[l,:] = v\<close> for a row of \<open>nsamp\<close> samples: \<open>v\<close> must have \<open>nsamp\<close> entries, or
  one entry (which is broadcast); otherwise NumPy raises ValueError.
\<close>

definition assign_row :: "nat \<Rightarrow> npfloat list \<Rightarrow> error + npfloat list" where
  "assign_row nsamp v =
     (if length v = nsamp then Inr v
      else if length v = 1 then Inr (replicate nsamp (hd v))
      else Inl ValueError)"

definition station_row :: "real list list \<Rightarrow> nat \<Rightarrow> nat \<Rightarrow> error + npfloat list" where
  "station_row st nsamp j =
     (if j < length st then
        (case scale_trace (st ! j) of Inl e \<Rightarrow> Inl e | Inr v \<Rightarrow> assign_row nsamp v)
      else Inl IndexError)"

text \<open>
  \<^verbatim>\<open>
  data = np.zeros((3, nsamp))
  k = 0; l = 0
  for j in ix[i,:]:
      data[l,:] = st[j].data/np.max(np.abs(st[j].data))
      l = l + 1
  \<close>
  A row of \<open>ix\<close> holds the three station indices the neighbour search returns
  (\<^verbatim>\<open>n_neighbors=3\<close>): the station itself and its two nearest neighbours.
\<close>

definition extract_data ::
  "real list list \<Rightarrow> nat \<Rightarrow> nat \<times> nat \<times> nat \<Rightarrow>
   error + npfloat list \<times> npfloat list \<times> npfloat list" where
  "extract_data st nsamp r =
     (case r of (j0, j1, j2) \<Rightarrow>
       (case station_row st nsamp j0 of Inl e \<Rightarrow> Inl e | Inr d0 \<Rightarrow>
       (case station_row st nsamp j1 of Inl e \<Rightarrow> Inl e | Inr d1 \<Rightarrow>
       (case station_row st nsamp j2 of Inl e \<Rightarrow> Inl e | Inr d2 \<Rightarrow> Inr (d0, d1, d2)))))"

text \<open>
  \<^verbatim>\<open>
  C_stack = []
  for i in range(0, ix.shape[0]):
      (extract data; run the similarity loop)
      C_stack.append(C)
  \<close>
  \<open>L\<close> is overwritten by every station's loop; the one left at the end is what the
  notebook plots the stack against.
\<close>

fun stack_loop ::
  "real list list \<Rightarrow> (nat \<times> nat \<times> nat) list \<Rightarrow> nat \<Rightarrow> int \<Rightarrow> int \<Rightarrow>
   npfloat list list \<Rightarrow> int list \<Rightarrow> (error + npfloat list list \<times> int list) option" where
  "stack_loop st [] nsamp nsamp_win i_max C_stack L = Some (Inr (C_stack, L))"
| "stack_loop st (r # rs) nsamp nsamp_win i_max C_stack L =
     (case extract_data st nsamp r of
        Inl e \<Rightarrow> Some (Inl e)
      | Inr data \<Rightarrow>
         (case similarity_trace data nsamp nsamp_win i_max of
            None \<Rightarrow> None
          | Some (Inl e) \<Rightarrow> Some (Inl e)
          | Some (Inr (C, L')) \<Rightarrow>
              stack_loop st rs nsamp nsamp_win i_max (C_stack @ [C]) L'))"

text \<open>
  \<^verbatim>\<open>
  C_stack = np.array(C_stack)
  C_stack2D = C_stack.copy()
  C_stack = C_stack.sum(axis=0)/ix.shape[0]
  \<close>
  Of no rows, \<^verbatim>\<open>np.array\<close> is the empty vector, whose sum is the scalar \<^verbatim>\<open>0.0\<close>. Rows of
  different lengths make \<^verbatim>\<open>np.array\<close> raise ValueError.
\<close>

datatype ndarray = Scalar npfloat | Vector "npfloat list"

definition network_stack :: "npfloat list list \<Rightarrow> nat \<Rightarrow> error + ndarray" where
  "network_stack C_stack n =
     (case C_stack of
        [] \<Rightarrow> Inr (Scalar (np_div (Fin 0) (Fin (real n))))
      | C # Cs \<Rightarrow>
          if list_all (\<lambda>r. length r = length C) Cs then
            Inr (Vector (map (\<lambda>j. np_div (np_sum (map (\<lambda>r. r ! j) C_stack)) (Fin (real n)))
                           [0..<length C]))
          else Inl ValueError)"

definition network_similarity ::
  "real list list \<Rightarrow> (nat \<times> nat \<times> nat) list \<Rightarrow> nat \<Rightarrow> int \<Rightarrow> int \<Rightarrow> int list \<Rightarrow>
   (error + npfloat list list \<times> ndarray \<times> int list) option" where
  "network_similarity st ix nsamp nsamp_win i_max L0 =
     (case stack_loop st ix nsamp nsamp_win i_max [] L0 of
        None \<Rightarrow> None
      | Some (Inl e) \<Rightarrow> Some (Inl e)
      | Some (Inr (C_stack2D, L)) \<Rightarrow>
          (case network_stack C_stack2D (length ix) of
             Inl e \<Rightarrow> Some (Inl e)
           | Inr C_stack \<Rightarrow> Some (Inr (C_stack2D, C_stack, L))))"

section \<open>Rounding to \<^verbatim>\<open>float64\<close>\<close>

text \<open>
  The two scalar cells below (the maximum lag and the backazimuths) are decided by how a
  single operation rounds, so there every arithmetic result is rounded as IEEE 754
  binary64 does: to the nearest value with a 53-bit significand, ties to even, with
  gradual underflow (the exponent does not go below \<open>-1022\<close>) and overflow to an infinity
  from \<open>2^1024\<close> on. \<open>rne\<close> rounds a real to the nearest integer, ties to even.
\<close>

definition rne :: "real \<Rightarrow> int" where
  "rne x =
     (let f = \<lfloor>x\<rfloor>; d = x - of_int f
      in if d < 1 / 2 then f else if 1 / 2 < d then f + 1 else if even f then f else f + 1)"

definition f64_exponent :: "real \<Rightarrow> int" where
  "f64_exponent r = max \<lfloor>log 2 \<bar>r\<bar>\<rfloor> (- 1022)"

definition f64_nearest :: "real \<Rightarrow> real" where
  "f64_nearest r =
     (if r = 0 then 0
      else (let u = 2 powi (f64_exponent r - 52) in u * of_int (rne (r / u))))"

definition f64_round :: "real \<Rightarrow> npfloat" where
  "f64_round r =
     (let v = f64_nearest r
      in if 2 ^ 1024 \<le> v then PInf else if v \<le> - (2 ^ 1024) then NInf else Fin v)"

text \<open>Division of two floats: the exact quotient, rounded.\<close>

definition f64_div :: "npfloat \<Rightarrow> npfloat \<Rightarrow> npfloat" where
  "f64_div x y = (case np_div x y of Fin q \<Rightarrow> f64_round q | v \<Rightarrow> v)"

section \<open>The maximum lag and the backazimuths\<close>

text \<open>
  \<^verbatim>\<open>int(x)\<close> of a float: truncation towards zero; NaN raises ValueError and an infinity
  OverflowError.
\<close>

definition py_int :: "npfloat \<Rightarrow> error + int" where
  "py_int x =
     (case x of
        Fin r \<Rightarrow> Inr (if 0 \<le> r then \<lfloor>r\<rfloor> else \<lceil>r\<rceil>)
      | NaN \<Rightarrow> Inl ValueError
      | _ \<Rightarrow> Inl OverflowError)"

text \<open>
  \<^verbatim>\<open>
  max_dist = np.max(distances) /1000.    # Maximum inter-station distance (km)
  v_min = 3.5                            # Slowest wave velocity (km/s)
  t_max = max_dist/v_min                 # Maximum inter-station travel time (s)
  i_max = int(t_max/st[0].stats.delta)   # Maximum necessary shift in samples
  \<close>
  \<open>distances\<close> is the table of neighbour distances in metres (finite values) and
  \<open>delta\<close> the sampling interval in seconds. Each of the three divisions rounds.
\<close>

definition i_max_of :: "real list list \<Rightarrow> real \<Rightarrow> error + int" where
  "i_max_of distances delta =
     (case np_max (map Fin (concat distances)) of
        Inl e \<Rightarrow> Inl e
      | Inr m \<Rightarrow>
          (let max_dist = f64_div m (Fin 1000);
               v_min = Fin 3.5;
               t_max = f64_div max_dist v_min
           in py_int (f64_div t_max (Fin delta))))"

text \<open>
  \<^verbatim>\<open>B = slid_fk[:,3] % 360.\<close> The rows of \<open>slid_fk\<close> come from the array-processing
  library (finite values); column 3 is the raw backazimuth. NumPy's \<open>%\<close> on floats
  takes the C remainder \<^verbatim>\<open>fmod(x, y)\<close>, which is exact and has the sign of \<open>x\<close>, and
  adds \<open>y\<close> to it when it is not zero and its sign differs from that of \<open>y\<close>; this
  addition rounds. A zero divisor gives NaN.
\<close>

definition np_mod :: "real \<Rightarrow> real \<Rightarrow> npfloat" where
  "np_mod x y =
     (if y = 0 then NaN
      else (let q = x / y;
                m = x - y * of_int (if 0 \<le> q then \<lfloor>q\<rfloor> else \<lceil>q\<rceil>)
            in if m \<noteq> 0 \<and> ((y < 0) \<noteq> (m < 0)) then Fin (f64_nearest (m + y)) else Fin m))"

definition column :: "real list list \<Rightarrow> nat \<Rightarrow> error + real list" where
  "column m k =
     (if list_all (\<lambda>r. k < length r) m then Inr (map (\<lambda>r. r ! k) m) else Inl IndexError)"

definition backazimuths :: "real list list \<Rightarrow> error + npfloat list" where
  "backazimuths slid_fk =
     (case column slid_fk 3 of Inl e \<Rightarrow> Inl e | Inr c \<Rightarrow> Inr (map (\<lambda>x. np_mod x 360) c))"

section \<open>Mean and standard deviation of a real sequence\<close>

text \<open>
  The mean \<open>\<mu>\<close> and the population standard deviation \<open>\<sigma>\<close> of a sequence of reals, as in
  the notebook's formula for the normalized cross-correlation. They are what \<open>np_mean\<close>
  and \<open>np_std\<close>, which do not round, give on a non-empty array of finite values (lemmas
  \<open>np_mean_Fin\<close> and \<open>np_std_Fin\<close>), and serve to state the theorems.
\<close>

definition real_mean :: "real list \<Rightarrow> real" where
  "real_mean xs = sum_list xs / real (length xs)"

definition real_std :: "real list \<Rightarrow> real" where
  "real_std xs = sqrt (real_mean (map (\<lambda>x. (x - real_mean xs) * (x - real_mean xs)) xs))"

text \<open>
  The unnormalized cross-correlation \<open>R(k) = \<Sum>n. x(n + k) * y(n)\<close> of the notebook's text,
  indexed as \<^verbatim>\<open>np.correlate\<close> does: entry \<open>j\<close> is the lag \<open>k = j - (len(y) - 1)\<close>. It is
  what \<open>correlate_entry\<close> computes on finite values (lemma \<open>correlate_entry_Fin\<close>).
\<close>

definition lag_sum :: "real list \<Rightarrow> real list \<Rightarrow> nat \<Rightarrow> real" where
  "lag_sum x y j =
     sum_list (map (\<lambda>n. x ! (n + j + 1 - length y) * y ! n)
       (filter (\<lambda>n. length y \<le> n + j + 1 \<and> n + j + 1 - length y < length x) [0..<length y]))"

section \<open>Finite values\<close>

lemma foldl_np_max2_Fin: "foldl np_max2 (Fin x) (map Fin r) = Fin (foldl max x r)"
  by (induction r arbitrary: x) simp_all

lemma foldl_max_Max: "foldl max (x::real) r = Max (set (x # r))"
proof -
  have "(\<lambda>a s. max s a) = (max :: real \<Rightarrow> real \<Rightarrow> real)"
    by (intro ext) (simp add: max.commute)
  then show ?thesis
    unfolding Max.set_eq_fold foldl_conv_fold by simp
qed

lemma np_max_Fin: "xs \<noteq> [] \<Longrightarrow> np_max (map Fin xs) = Inr (Fin (Max (set xs)))"
  by (cases xs) (simp_all add: np_max_def foldl_np_max2_Fin foldl_max_Max del: Max_insert set_simps)

lemma np_sum_Fin: "np_sum (map Fin xs) = Fin (sum_list xs)"
  by (induction xs) (simp_all add: np_sum_def)

lemma np_mean_Fin: "xs \<noteq> [] \<Longrightarrow> np_mean (map Fin xs) = Fin (real_mean xs)"
  by (simp add: np_mean_def np_sum_Fin real_mean_def)

lemma sq_mean_nonneg: "0 \<le> real_mean (map (\<lambda>x. (x - m) * (x - m)) xs)"
  unfolding real_mean_def
  by (intro divide_nonneg_nonneg sum_list_nonneg) auto

lemma np_std_Fin: "xs \<noteq> [] \<Longrightarrow> np_std (map Fin xs) = Fin (real_std xs)"
proof -
  assume ne: "xs \<noteq> []"
  have "map (\<lambda>x. np_mul (np_sub x (Fin (real_mean xs))) (np_sub x (Fin (real_mean xs)))) (map Fin xs)
      = map Fin (map (\<lambda>x. (x - real_mean xs) * (x - real_mean xs)) xs)"
    by (simp add: np_sub_def)
  then show ?thesis
    using ne sq_mean_nonneg [of "real_mean xs" xs]
    by (simp add: np_std_def np_mean_Fin Let_def real_std_def del: map_map)
qed

lemma real_std_zero:
  assumes "xs \<noteq> []" and "real_std xs = 0" and "x \<in> set xs"
  shows "x = real_mean xs"
proof -
  let ?sq = "map (\<lambda>x. (x - real_mean xs) * (x - real_mean xs)) xs"
  have "real_mean ?sq = 0"
    using assms(2) by (simp add: real_std_def)
  then have "sum_list ?sq = 0"
    using assms(1) by (simp add: real_mean_def)
  moreover have "\<And>y. y \<in> set ?sq \<Longrightarrow> 0 \<le> y" by auto
  ultimately have "\<forall>y \<in> set ?sq. y = 0"
    using sum_list_nonneg_eq_0_iff [of ?sq] by blast
  then have "(x - real_mean xs) * (x - real_mean xs) = 0"
    using assms(3) by auto
  then show ?thesis by simp
qed

lemma normalize_a_Fin:
  "xs \<noteq> [] \<Longrightarrow> normalize_a (map Fin xs) =
     map (\<lambda>x. np_div (Fin (x - real_mean xs)) (Fin (real_std xs * real (length xs)))) xs"
  by (simp add: normalize_a_def np_mean_Fin np_std_Fin np_sub_def)

lemma normalize_b_Fin:
  "xs \<noteq> [] \<Longrightarrow> normalize_b (map Fin xs) =
     map (\<lambda>x. np_div (Fin (x - real_mean xs)) (Fin (real_std xs))) xs"
  by (simp add: normalize_b_def np_mean_Fin np_std_Fin np_sub_def)

lemma normalize_a_silent:
  assumes "xs \<noteq> []" and "real_std xs = 0"
  shows "normalize_a (map Fin xs) = replicate (length xs) NaN"
proof -
  have "map (\<lambda>x. np_div (Fin (x - real_mean xs)) (Fin (real_std xs * real (length xs)))) xs
      = map (\<lambda>x. NaN) xs"
    using real_std_zero [OF assms] assms(2) by (intro map_cong) simp_all
  then show ?thesis
    by (simp add: normalize_a_Fin [OF assms(1)] map_replicate_const)
qed

lemma normalize_b_silent:
  assumes "xs \<noteq> []" and "real_std xs = 0"
  shows "normalize_b (map Fin xs) = replicate (length xs) NaN"
proof -
  have "map (\<lambda>x. np_div (Fin (x - real_mean xs)) (Fin (real_std xs))) xs
      = map (\<lambda>x. NaN) xs"
    using real_std_zero [OF assms] assms(2) by (intro map_cong) simp_all
  then show ?thesis
    by (simp add: normalize_b_Fin [OF assms(1)] map_replicate_const)
qed

lemma length_normalize_a [simp]: "length (normalize_a a) = length a"
  by (simp add: normalize_a_def)

lemma length_normalize_b [simp]: "length (normalize_b b) = length b"
  by (simp add: normalize_b_def)

lemma np_add_NaN [simp]: "np_add x NaN = NaN"
  by (cases x) simp_all

lemma np_mul_NaN [simp]: "np_mul x NaN = NaN"
  by (cases x) simp_all

lemma np_div_NaN [simp]: "np_div x NaN = NaN"
  by (cases x) simp_all

lemma np_max2_NaN [simp]: "np_max2 x NaN = NaN"
  by (cases x) simp_all

lemma np_sum_NaN: "NaN \<in> set xs \<Longrightarrow> np_sum xs = NaN"
  by (induction xs) (auto simp: np_sum_def)

lemma foldl_np_max2_NaN [simp]: "foldl np_max2 NaN xs = NaN"
  by (induction xs) simp_all

lemma foldl_np_max2_has_NaN: "NaN \<in> set xs \<Longrightarrow> foldl np_max2 x xs = NaN"
  by (induction xs arbitrary: x) auto

lemma np_max_NaN: "NaN \<in> set xs \<Longrightarrow> np_max xs = Inr NaN"
  by (cases xs) (auto simp: np_max_def foldl_np_max2_has_NaN)

lemma np_max_returns: "xs \<noteq> [] \<Longrightarrow> \<exists>v. np_max xs = Inr v"
  by (cases xs) (simp_all add: np_max_def)

lemma correlate_entry_NaN:
  assumes "n < length v" and "length v \<le> n + j + 1" and "n + j + 1 - length v < length a"
    and "np_mul (a ! (n + j + 1 - length v)) (v ! n) = NaN"
  shows "correlate_entry a v j = NaN"
proof -
  have "NaN \<in> set [np_mul (a ! (n + j + 1 - length v)) (v ! n).
             n \<leftarrow> [0..<length v], length v \<le> n + j + 1, n + j + 1 - length v < length a]"
    using assms by (auto intro!: bexI [of _ n])
  then show ?thesis
    unfolding correlate_entry_def by (rule np_sum_NaN)
qed

text \<open>Every entry of the full correlation has at least one term.\<close>

lemma correlate_term_exists:
  assumes "j < length a + length v - 1" and "a \<noteq> []" and "v \<noteq> []"
  shows "\<exists>n. n < length v \<and> length v \<le> n + j + 1 \<and> n + j + 1 - length v < length a"
proof (cases "j + 1 \<le> length v")
  case True
  then show ?thesis using assms
    by (intro exI [of _ "length v - (j + 1)"]) (auto simp: Suc_le_eq)
next
  case False
  then show ?thesis using assms
    by (intro exI [of _ 0]) auto
qed

lemma length_py_slice:
  "length (py_slice xs s e) =
     min (length xs - slice_bound (int (length xs)) s)
         (slice_bound (int (length xs)) e - slice_bound (int (length xs)) s)"
  by (simp add: py_slice_def Let_def min.commute)

lemma lag_slice:
  assumes "length xs = 2 * N - 1" and "1 \<le> N" and "1 \<le> L"
  shows "py_slice xs (int N - 1 - L) (int N - 1 + L) \<noteq> []"
proof -
  have "0 < length (py_slice xs (int N - 1 - L) (int N - 1 + L))"
    using assms unfolding length_py_slice slice_bound_def
    by (simp split: if_splits) linarith?
  then show ?thesis by auto
qed

lemma norm_xcorr_unfold:
  "a \<noteq> [] \<Longrightarrow> b \<noteq> [] \<Longrightarrow> norm_xcorr a b L =
     np_max (py_slice (map (correlate_entry (normalize_a a) (normalize_b b))
                [0..<length a + length b - 1]) (int (length a) - 1 - L) (int (length a) - 1 + L))"
  by (simp add: norm_xcorr_def np_correlate_full_def Let_def normalize_a_def normalize_b_def)

lemma norm_xcorr_returns:
  assumes "length a = length b" and "a \<noteq> []" and "1 \<le> L"
  shows "\<exists>v. norm_xcorr a b L = Inr v"
proof -
  have b: "b \<noteq> []" using assms by auto
  have "length (map (correlate_entry (normalize_a a) (normalize_b b)) [0..<length a + length b - 1])
      = 2 * length a - 1"
    using assms by simp
  then have "py_slice (map (correlate_entry (normalize_a a) (normalize_b b))
                [0..<length a + length b - 1]) (int (length a) - 1 - L) (int (length a) - 1 + L) \<noteq> []"
    using assms by (intro lag_slice) (auto simp: Suc_le_eq)
  then show ?thesis
    unfolding norm_xcorr_unfold [OF assms(2) b] by (rule np_max_returns)
qed

section \<open>The lag window of \<open>norm_xcorr\<close>\<close>

text \<open>
  Claim C1 (the maximum is taken over the lags \<open>-L .. +L\<close>, both ends included) fails on
  the code. For \<open>a = [1, 1, -1, -1]\<close>, \<open>b = [1, -1, -1, 1]\<close> and \<open>max_lag = 1\<close> the full
  correlation of the normalized sequences is \<open>[1/4, 0, -3/4, 0, 3/4, 0, -1/4]\<close>, with the
  zeroth lag at index 3: the lags \<open>-1, 0, +1\<close> hold \<open>-3/4, 0, 3/4\<close>, whose maximum is
  \<open>3/4\<close>. The slice \<^verbatim>\<open>xcorr[i-max_lag:i+max_lag]\<close> stops before lag \<open>+1\<close>, and the
  function returns \<open>0\<close>.
\<close>

theorem norm_xcorr_excludes_lag_plus_max_lag:
  "norm_xcorr (map Fin [1, 1, -1, -1]) (map Fin [1, -1, -1, 1]) 1 = Inr (Fin 0) \<and>
   np_correlate_full (normalize_a (map Fin [1, 1, -1, -1])) (normalize_b (map Fin [1, -1, -1, 1]))
     = Inr (map Fin [1/4, 0, -3/4, 0, 3/4, 0, -1/4])"
proof -
  have na: "normalize_a (map Fin [1,1,-1,-1]) = map Fin [1/4,1/4,-1/4,-1/4]"
    by (simp add: normalize_a_def np_std_def np_mean_def np_sum_def np_sub_def)
  have nb: "normalize_b (map Fin [1,-1,-1,1]) = map Fin [1,-1,-1,1]"
    by (simp add: normalize_b_def np_std_def np_mean_def np_sum_def np_sub_def)
  have cf: "np_correlate_full (map Fin [1/4,1/4,-1/4,-1/4]) (map Fin [1,-1,-1,1])
     = Inr (map Fin [1/4, 0, -3/4, 0, 3/4, 0, -1/4])"
    by (simp add: np_correlate_full_def correlate_entry_def np_sum_def upt_rec)
  have "norm_xcorr (map Fin [1, 1, -1, -1]) (map Fin [1, -1, -1, 1]) 1 = Inr (Fin 0)"
    unfolding norm_xcorr_def Let_def na nb cf
    by (simp add: py_slice_def slice_bound_def np_max_def)
  then show ?thesis unfolding na nb cf by simp
qed

text \<open>
  Claim C3 (the correlation of a zero-mean, unit-variance sequence with itself is \<open>1\<close>
  for every \<open>max_lag \<ge> 0\<close>, \<open>max_lag = 0\<close> included) fails on the code at \<open>max_lag = 0\<close>:
  for \<open>a = [1, -1]\<close> (mean 0, variance 1) the slice \<^verbatim>\<open>xcorr[i:i]\<close> is empty and
  \<^verbatim>\<open>np.max\<close> raises ValueError. It also fails from \<open>max_lag = len(a)\<close> on, where the
  start \<^verbatim>\<open>i-max_lag\<close> of the slice is negative and counts from the end: at
  \<open>max_lag = 2\<close> the slice \<^verbatim>\<open>xcorr[-1:3]\<close> holds lag \<open>+1\<close> alone, and the result is \<open>-1/2\<close>.
\<close>

theorem norm_xcorr_self_max_lag_zero_raises:
  "norm_xcorr (map Fin [1, -1]) (map Fin [1, -1]) 0 = Inl ValueError \<and>
   norm_xcorr (map Fin [1, -1]) (map Fin [1, -1]) 2 = Inr (Fin (- 1 / 2))"
proof -
  have na: "normalize_a (map Fin [1,-1]) = map Fin [1/2,-1/2]"
    by (simp add: normalize_a_def np_std_def np_mean_def np_sum_def np_sub_def)
  have nb: "normalize_b (map Fin [1,-1]) = map Fin [1,-1]"
    by (simp add: normalize_b_def np_std_def np_mean_def np_sum_def np_sub_def)
  have "norm_xcorr (map Fin [1, -1]) (map Fin [1, -1]) 0 = Inl ValueError"
    unfolding norm_xcorr_def Let_def na nb
    by (simp add: np_correlate_full_def py_slice_def slice_bound_def np_max_def)
  moreover have "norm_xcorr (map Fin [1, -1]) (map Fin [1, -1]) 2 = Inr (Fin (- 1 / 2))"
    unfolding norm_xcorr_def Let_def na nb
    by (simp add: np_correlate_full_def correlate_entry_def np_sum_def upt_rec
        py_slice_def slice_bound_def np_max_def)
  ultimately show ?thesis by simp
qed

section \<open>The sliding similarity loop runs and what it appends\<close>

lemma int_quot_pos: "4 \<le> n \<Longrightarrow> 1 \<le> int_quot n 4"
  by (simp add: int_quot_def) 

lemma window_slice:
  assumes "0 \<le> l" and "l < int (length d) - w" and "0 \<le> w"
  shows "py_slice d l (l + w) = take (nat w) (drop (nat l) d)"
  using assms by (simp add: py_slice_def slice_bound_def Let_def nat_diff_distrib nat_add_distrib)

lemma window_length:
  assumes "0 \<le> l" and "l < int (length d) - w" and "0 \<le> w"
  shows "length (py_slice d l (l + w)) = nat w"
  using assms by (simp add: window_slice)

lemma remaining_zero:
  assumes "1 \<le> (s::int)" and "\<not> l < b"
  shows "nat ((b - l + s - 1) div s) = 0"
proof -
  have "b - l + s - 1 < s" using assms by simp
  then have "\<not> 0 < (b - l + s - 1) div s"
    using assms(1) pos_imp_zdiv_pos_iff [of s "b - l + s - 1"] by linarith
  then show ?thesis by simp
qed

lemma remaining_Suc:
  assumes "1 \<le> (s::int)" and "l < b"
  shows "nat ((b - l + s - 1) div s) = Suc (nat ((b - (l + s) + s - 1) div s))"
proof -
  have "b - l + s - 1 = (b - (l + s) + s - 1) + s" by simp
  then have "(b - l + s - 1) div s = (b - (l + s) + s - 1) div s + 1"
    using assms(1) by (metis div_add_self2 not_one_le_zero)
  moreover have "0 \<le> (b - (l + s) + s - 1) div s"
    using assms by (simp add: pos_imp_zdiv_nonneg_iff)
  ultimately show ?thesis by simp
qed


lemma similarity_loop_runs:
  assumes w: "4 \<le> nsamp_win" and i: "1 \<le> i_max"
    and d0: "length d0 = nsamp" and d1: "length d1 = nsamp" and d2: "length d2 = nsamp"
    and l: "0 \<le> l"
  shows "\<exists>C'. similarity_loop (d0, d1, d2) (int nsamp) nsamp_win i_max l C L =
           Some (Inr (C @ C',
             L @ map (\<lambda>m. l + int m * int_quot nsamp_win 4 + int_quot nsamp_win 2)
                   [0..<nat ((int nsamp - nsamp_win - l + int_quot nsamp_win 4 - 1)
                              div int_quot nsamp_win 4)])) \<and>
         length C' = nat ((int nsamp - nsamp_win - l + int_quot nsamp_win 4 - 1)
                            div int_quot nsamp_win 4) \<and>
         (\<forall>m < length C'. \<exists>c1 c2.
            norm_xcorr (py_slice d0 (l + int m * int_quot nsamp_win 4)
                          (l + int m * int_quot nsamp_win 4 + nsamp_win))
                       (py_slice d1 (l + int m * int_quot nsamp_win 4)
                          (l + int m * int_quot nsamp_win 4 + nsamp_win)) i_max = Inr c1 \<and>
            norm_xcorr (py_slice d0 (l + int m * int_quot nsamp_win 4)
                          (l + int m * int_quot nsamp_win 4 + nsamp_win))
                       (py_slice d2 (l + int m * int_quot nsamp_win 4)
                          (l + int m * int_quot nsamp_win 4 + nsamp_win)) i_max = Inr c2 \<and>
            C' ! m = np_div (np_add c1 c2) (Fin 2))"
  using l
proof (induction "nat (int nsamp - nsamp_win - l)" arbitrary: l C L rule: less_induct)
  case less
  define s where "s = int_quot nsamp_win 4"
  define h where "h = int_quot nsamp_win 2"
  define b where "b = int nsamp - nsamp_win"
  have s: "1 \<le> s" unfolding s_def using w by (rule int_quot_pos)
  show ?case
  proof (cases "l < b")
    case False
    then have "similarity_loop (d0, d1, d2) (int nsamp) nsamp_win i_max l C L = Some (Inr (C, L))"
      by (subst similarity_loop.simps) (simp add: b_def)
    moreover have "nat ((b - l + s - 1) div s) = 0"
      using s False by (rule remaining_zero)
    ultimately show ?thesis
      unfolding s_def [symmetric] b_def [symmetric] by simp
  next
    case True
    let ?w0 = "py_slice d0 l (l + nsamp_win)"
    let ?w1 = "py_slice d1 l (l + nsamp_win)"
    let ?w2 = "py_slice d2 l (l + nsamp_win)"
    have len: "length ?w0 = nat nsamp_win" "length ?w1 = nat nsamp_win" "length ?w2 = nat nsamp_win"
      using True less.prems w d0 d1 d2 by (simp_all add: window_length b_def)
    have ne: "?w0 \<noteq> []" using len(1) w by auto
    obtain c1 where c1: "norm_xcorr ?w0 ?w1 i_max = Inr c1"
      using norm_xcorr_returns [of ?w0 ?w1 i_max] len ne i by auto
    obtain c2 where c2: "norm_xcorr ?w0 ?w2 i_max = Inr c2"
      using norm_xcorr_returns [of ?w0 ?w2 i_max] len ne i by auto
    let ?c = "np_div (np_add c1 c2) (Fin 2)"
    have unfold: "similarity_loop (d0, d1, d2) (int nsamp) nsamp_win i_max l C L =
        similarity_loop (d0, d1, d2) (int nsamp) nsamp_win i_max (l + s) (C @ [?c]) (L @ [l + h])"
      using True by (subst similarity_loop.simps) (simp add: b_def c1 c2 s_def h_def)
    have "nat (int nsamp - nsamp_win - (l + s)) < nat (int nsamp - nsamp_win - l)"
      using True s by (simp add: b_def)
    moreover have "0 \<le> l + s" using less.prems s by simp
    ultimately obtain C'' where
      run: "similarity_loop (d0, d1, d2) (int nsamp) nsamp_win i_max (l + s) (C @ [?c]) (L @ [l + h]) =
           Some (Inr ((C @ [?c]) @ C'',
             (L @ [l + h]) @ map (\<lambda>m. (l + s) + int m * s + h)
                   [0..<nat ((b - (l + s) + s - 1) div s)]))"
      and n: "length C'' = nat ((b - (l + s) + s - 1) div s)"
      and each: "\<forall>m < length C''. \<exists>c1 c2.
            norm_xcorr (py_slice d0 ((l + s) + int m * s) ((l + s) + int m * s + nsamp_win))
                       (py_slice d1 ((l + s) + int m * s) ((l + s) + int m * s + nsamp_win)) i_max = Inr c1 \<and>
            norm_xcorr (py_slice d0 ((l + s) + int m * s) ((l + s) + int m * s + nsamp_win))
                       (py_slice d2 ((l + s) + int m * s) ((l + s) + int m * s + nsamp_win)) i_max = Inr c2 \<and>
            C'' ! m = np_div (np_add c1 c2) (Fin 2)"
      using less.hyps [of "l + s" "C @ [?c]" "L @ [l + h]"]
      unfolding s_def [symmetric] h_def [symmetric] b_def [symmetric] by blast
    have k: "nat ((b - l + s - 1) div s) = Suc (nat ((b - (l + s) + s - 1) div s))"
      using s True by (rule remaining_Suc)
    have Ls: "(L @ [l + h]) @ map (\<lambda>m. (l + s) + int m * s + h) [0..<nat ((b - (l + s) + s - 1) div s)]
        = L @ map (\<lambda>m. l + int m * s + h) [0..<nat ((b - l + s - 1) div s)]"
      unfolding k by (simp add: upt_conv_Cons map_Suc_upt [symmetric] algebra_simps del: upt_Suc)
    have all: "\<forall>m < length (?c # C''). \<exists>c1 c2.
            norm_xcorr (py_slice d0 (l + int m * s) (l + int m * s + nsamp_win))
                       (py_slice d1 (l + int m * s) (l + int m * s + nsamp_win)) i_max = Inr c1 \<and>
            norm_xcorr (py_slice d0 (l + int m * s) (l + int m * s + nsamp_win))
                       (py_slice d2 (l + int m * s) (l + int m * s + nsamp_win)) i_max = Inr c2 \<and>
            (?c # C'') ! m = np_div (np_add c1 c2) (Fin 2)"
    proof (intro allI impI)
      fix m assume m: "m < length (?c # C'')"
      show "\<exists>c1 c2.
            norm_xcorr (py_slice d0 (l + int m * s) (l + int m * s + nsamp_win))
                       (py_slice d1 (l + int m * s) (l + int m * s + nsamp_win)) i_max = Inr c1 \<and>
            norm_xcorr (py_slice d0 (l + int m * s) (l + int m * s + nsamp_win))
                       (py_slice d2 (l + int m * s) (l + int m * s + nsamp_win)) i_max = Inr c2 \<and>
            (?c # C'') ! m = np_div (np_add c1 c2) (Fin 2)"
      proof (cases m)
        case 0
        then show ?thesis using c1 c2 by simp
      next
        case (Suc m')
        then have "m' < length C''" using m by simp
        moreover have "l + s + int m' * s = l + int m * s"
          using Suc by (simp add: algebra_simps)
        ultimately show ?thesis
          using each Suc by (metis nth_Cons_Suc)
      qed
    qed
    show ?thesis
      unfolding s_def [symmetric] h_def [symmetric] b_def [symmetric]
      using unfold run Ls n k all
      by (intro exI [of _ "?c # C''"]) simp
  qed
qed

text \<open>
  Claim C4 (each similarity trace has \<open>floor((num_samples - window_length) / window_step) + 1\<close>
  entries, 37 for 1000 samples, windows of 100 and step 25) fails on the code: the loop
  runs while \<^verbatim>\<open>l < nsamp-nsamp_win\<close>, so the last full window, which starts at
  \<open>nsamp - nsamp_win = 900\<close>, is left out and the trace has 36 entries.
\<close>

theorem similarity_trace_1000_has_36_entries: "\<exists>C L. similarity_trace (map (\<lambda>n. Fin (real n)) [0..<1000],
                  map (\<lambda>n. Fin (real n)) [0..<1000],
                  map (\<lambda>n. Fin (real n)) [0..<1000]) 1000 100 10 = Some (Inr (C, L)) \<and>
       length C = 36 \<and> length L = 36 \<and>
       nat ((1000 - 100) div int_quot 100 4 + 1) = 37"
proof -
  have q: "int_quot 100 4 = 25" by (simp add: int_quot_def)
  have "length (map (\<lambda>n. Fin (real n)) [0..<1000]) = 1000" by simp
  from similarity_loop_runs [OF _ _ this this this, of 100 10 0 "[]" "[]"]
  show ?thesis unfolding similarity_trace_def q by auto
qed

section \<open>Silent windows\<close>

lemma set_py_slice: "set (py_slice xs s e) \<subseteq> set xs"
  unfolding py_slice_def Let_def
  by (meson set_take_subset set_drop_subset subset_trans)

lemma norm_xcorr_silent:
  assumes len: "length a = length b" and ne: "a \<noteq> []" and L: "1 \<le> L"
    and silent: "real_std a = 0 \<or> real_std b = 0"
  shows "norm_xcorr (map Fin a) (map Fin b) L = Inr NaN"
proof -
  let ?a = "normalize_a (map Fin a)" and ?b = "normalize_b (map Fin b)"
  let ?xcorr = "map (correlate_entry ?a ?b) [0..<length (map Fin a) + length (map Fin b) - 1]"
  let ?cut = "py_slice ?xcorr (int (length (map Fin a)) - 1 - L) (int (length (map Fin a)) - 1 + L)"
  have neb: "b \<noteq> []" using len ne by auto
  have entry: "correlate_entry ?a ?b j = NaN" if j: "j < length a + length b - 1" for j
  proof -
    have "?a \<noteq> []" "?b \<noteq> []"
      using ne neb by (simp_all add: normalize_a_def normalize_b_def)
    moreover have "j < length ?a + length ?b - 1" using j by simp
    ultimately obtain n where
      n: "n < length ?b" "length ?b \<le> n + j + 1" "n + j + 1 - length ?b < length ?a"
      using correlate_term_exists [of j ?a ?b] by blast
    have "np_mul (?a ! (n + j + 1 - length ?b)) (?b ! n) = NaN"
    proof -
      from silent show ?thesis
      proof
        assume "real_std a = 0"
        then have "?a ! (n + j + 1 - length ?b) = NaN"
          using n(3) by (simp add: normalize_a_silent [OF ne])
        then show ?thesis by simp
      next
        assume "real_std b = 0"
        then have "?b ! n = NaN"
          using n(1) by (simp add: normalize_b_silent [OF neb])
        then show ?thesis by simp
      qed
    qed
    with n show ?thesis by (intro correlate_entry_NaN [of n])
  qed
  have "length ?xcorr = 2 * length a - 1" using len by simp
  then have "?cut \<noteq> []"
    using ne L by (intro lag_slice) (auto simp: Suc_le_eq)
  then obtain v where v: "v \<in> set ?cut" by (cases ?cut) auto
  have "v \<in> set ?xcorr" by (rule subsetD [OF set_py_slice v])
  then have "v = NaN" using entry by auto
  with v have "NaN \<in> set ?cut" by simp
  then have "np_max ?cut = Inr NaN" by (rule np_max_NaN)
  moreover have "norm_xcorr (map Fin a) (map Fin b) L = np_max ?cut"
    using ne neb by (intro norm_xcorr_unfold) simp_all
  ultimately show ?thesis by simp
qed

section \<open>The network stack is the mean of the station traces\<close>

lemma scale_trace_returns:
  "x \<noteq> [] \<Longrightarrow> \<exists>v. scale_trace x = Inr v \<and> length v = length x"
proof -
  assume "x \<noteq> []"
  then have "map (\<lambda>v. np_abs (Fin v)) x \<noteq> []" by simp
  then obtain m where "np_max (map (\<lambda>v. np_abs (Fin v)) x) = Inr m"
    using np_max_returns by blast
  then show ?thesis by (simp add: scale_trace_def)
qed

lemma station_row_returns:
  assumes "j < length st" and "length (st ! j) = nsamp" and "0 < nsamp"
  shows "\<exists>v. station_row st nsamp j = Inr v \<and> length v = nsamp"
proof -
  have "st ! j \<noteq> []" using assms(2,3) by auto
  then obtain v where "scale_trace (st ! j) = Inr v" "length v = length (st ! j)"
    using scale_trace_returns by blast
  then show ?thesis using assms by (simp add: station_row_def assign_row_def)
qed

lemma extract_data_returns:
  assumes "j0 < length st" and "j1 < length st" and "j2 < length st"
    and "\<forall>s \<in> set st. length s = nsamp" and "0 < nsamp"
  shows "\<exists>d0 d1 d2. extract_data st nsamp (j0, j1, j2) = Inr (d0, d1, d2) \<and>
           length d0 = nsamp \<and> length d1 = nsamp \<and> length d2 = nsamp"
proof -
  have "length (st ! j0) = nsamp" "length (st ! j1) = nsamp" "length (st ! j2) = nsamp"
    using assms(1-4) by simp_all
  then obtain d0 d1 d2 where
    "station_row st nsamp j0 = Inr d0" "length d0 = nsamp"
    "station_row st nsamp j1 = Inr d1" "length d1 = nsamp"
    "station_row st nsamp j2 = Inr d2" "length d2 = nsamp"
    using station_row_returns assms(1-3,5) by metis
  then show ?thesis by (simp add: extract_data_def)
qed

lemma similarity_trace_returns:
  assumes "4 \<le> nsamp_win" and "1 \<le> i_max"
    and "length d0 = nsamp" and "length d1 = nsamp" and "length d2 = nsamp"
  shows "\<exists>C. similarity_trace (d0, d1, d2) nsamp nsamp_win i_max =
           Some (Inr (C, map (\<lambda>m. int m * int_quot nsamp_win 4 + int_quot nsamp_win 2)
                   [0..<nat ((int nsamp - nsamp_win + int_quot nsamp_win 4 - 1)
                              div int_quot nsamp_win 4)])) \<and>
         length C = nat ((int nsamp - nsamp_win + int_quot nsamp_win 4 - 1)
                            div int_quot nsamp_win 4)"
  using similarity_loop_runs [OF assms, of 0 "[]" "[]"]
  unfolding similarity_trace_def by auto

lemma stack_loop_runs:
  fixes nsamp :: nat and nsamp_win :: int
  defines "k \<equiv> nat ((int nsamp - nsamp_win + int_quot nsamp_win 4 - 1) div int_quot nsamp_win 4)"
  defines "Lw \<equiv> map (\<lambda>m. int m * int_quot nsamp_win 4 + int_quot nsamp_win 2) [0..<k]"
  assumes w: "4 \<le> nsamp_win" and i: "1 \<le> i_max" and n: "0 < nsamp"
    and st: "\<forall>s \<in> set st. length s = nsamp"
    and ix: "\<forall>r \<in> set ix. fst r < length st \<and> fst (snd r) < length st \<and> snd (snd r) < length st"
  shows "\<exists>Cs. stack_loop st ix nsamp nsamp_win i_max C_stack L =
            Some (Inr (C_stack @ Cs, if ix = [] then L else Lw)) \<and>
          length Cs = length ix \<and>
          (\<forall>i < length ix. length (Cs ! i) = k \<and>
             (\<exists>data. extract_data st nsamp (ix ! i) = Inr data \<and>
                similarity_trace data nsamp nsamp_win i_max = Some (Inr (Cs ! i, Lw))))"
  using ix
proof (induction ix arbitrary: C_stack L)
  case Nil
  then show ?case by simp
next
  case (Cons r rs)
  obtain j0 j1 j2 where r: "r = (j0, j1, j2)" by (cases r) auto
  have "j0 < length st" "j1 < length st" "j2 < length st"
    using Cons.prems r by simp_all
  then obtain d0 d1 d2 where
    ex: "extract_data st nsamp r = Inr (d0, d1, d2)"
    and len: "length d0 = nsamp" "length d1 = nsamp" "length d2 = nsamp"
    using extract_data_returns [OF _ _ _ st n] r by blast
  obtain C where tr: "similarity_trace (d0, d1, d2) nsamp nsamp_win i_max = Some (Inr (C, Lw))"
    and C: "length C = k"
    using similarity_trace_returns [OF w i len] unfolding k_def Lw_def by blast
  have step: "stack_loop st (r # rs) nsamp nsamp_win i_max C_stack L =
        stack_loop st rs nsamp nsamp_win i_max (C_stack @ [C]) Lw"
    by (simp add: ex tr)
  have "\<forall>r \<in> set rs. fst r < length st \<and> fst (snd r) < length st \<and> snd (snd r) < length st"
    using Cons.prems by simp
  from Cons.IH [OF this, of "C_stack @ [C]" Lw]
  obtain Cs where run: "stack_loop st rs nsamp nsamp_win i_max (C_stack @ [C]) Lw =
            Some (Inr ((C_stack @ [C]) @ Cs, Lw))"
    and n': "length Cs = length rs"
    and each: "\<forall>i < length rs. length (Cs ! i) = k \<and>
             (\<exists>data. extract_data st nsamp (rs ! i) = Inr data \<and>
                similarity_trace data nsamp nsamp_win i_max = Some (Inr (Cs ! i, Lw)))"
    by (auto split: if_splits)
  have all: "\<forall>i < length (r # rs). length ((C # Cs) ! i) = k \<and>
             (\<exists>data. extract_data st nsamp ((r # rs) ! i) = Inr data \<and>
                similarity_trace data nsamp nsamp_win i_max = Some (Inr ((C # Cs) ! i, Lw)))"
  proof (intro allI impI)
    fix i assume "i < length (r # rs)"
    then show "length ((C # Cs) ! i) = k \<and>
             (\<exists>data. extract_data st nsamp ((r # rs) ! i) = Inr data \<and>
                similarity_trace data nsamp nsamp_win i_max = Some (Inr ((C # Cs) ! i, Lw)))"
      using C ex tr each by (cases i) auto
  qed
  show ?case
    using step run n' all by (intro exI [of _ "C # Cs"]) simp
qed

text \<open>
  Claim C6: for a window of at least 4 samples, a maximum lag of at least 1, traces of
  \<open>nsamp > 0\<close> samples and a non-empty neighbour table with valid station indices, the
  network cell returns; the stack \<open>C_stack\<close> has the length of every station's trace and of
  the list \<open>L\<close> of window centres, which is the one every station's loop returns, and entry
  \<open>j\<close> of the stack is the sum of the stations' entries \<open>j\<close> divided by the number of
  stations.
\<close>

theorem network_similarity_is_mean:
  assumes w: "4 \<le> nsamp_win" and i: "1 \<le> i_max" and n: "0 < nsamp"
    and st: "\<forall>s \<in> set st. length s = nsamp"
    and ix: "\<forall>(j0, j1, j2) \<in> set ix. j0 < length st \<and> j1 < length st \<and> j2 < length st"
    and ne: "ix \<noteq> []"
  shows "\<exists>C_stack2D C_stack L.
     network_similarity st ix nsamp nsamp_win i_max L0 = Some (Inr (C_stack2D, Vector C_stack, L)) \<and>
     length C_stack2D = length ix \<and> length L = length C_stack \<and>
     (\<forall>i < length ix. length (C_stack2D ! i) = length C_stack \<and>
        (\<exists>data. extract_data st nsamp (ix ! i) = Inr data \<and>
           similarity_trace data nsamp nsamp_win i_max = Some (Inr (C_stack2D ! i, L)))) \<and>
     (\<forall>j < length C_stack.
        C_stack ! j = np_div (np_sum (map (\<lambda>C. C ! j) C_stack2D)) (Fin (real (length ix))))"
proof -
  define k where "k = nat ((int nsamp - nsamp_win + int_quot nsamp_win 4 - 1) div int_quot nsamp_win 4)"
  define Lw where "Lw = map (\<lambda>m. int m * int_quot nsamp_win 4 + int_quot nsamp_win 2) [0..<k]"
  have ix': "\<forall>r \<in> set ix. fst r < length st \<and> fst (snd r) < length st \<and> snd (snd r) < length st"
    using ix by auto
  from stack_loop_runs [OF w i n st ix', of "[]" L0]
  obtain Cs where run: "stack_loop st ix nsamp nsamp_win i_max [] L0 = Some (Inr (Cs, Lw))"
    and len: "length Cs = length ix"
    and each: "\<forall>i < length ix. length (Cs ! i) = k \<and>
             (\<exists>data. extract_data st nsamp (ix ! i) = Inr data \<and>
                similarity_trace data nsamp nsamp_win i_max = Some (Inr (Cs ! i, Lw)))"
    using ne unfolding k_def Lw_def by auto
  obtain C Cs' where Cs: "Cs = C # Cs'"
    using len ne by (cases Cs) auto
  have rows: "\<forall>r \<in> set Cs. length r = k"
    using each len by (auto simp: in_set_conv_nth)
  then have C: "length C = k" and "list_all (\<lambda>r. length r = length C) Cs'"
    using Cs by (simp_all add: list_all_iff)
  then have stack: "network_stack Cs (length ix) =
      Inr (Vector (map (\<lambda>j. np_div (np_sum (map (\<lambda>r. r ! j) Cs)) (Fin (real (length ix)))) [0..<k]))"
    by (simp add: network_stack_def Cs)
  let ?v = "map (\<lambda>j. np_div (np_sum (map (\<lambda>r. r ! j) Cs)) (Fin (real (length ix)))) [0..<k]"
  have "network_similarity st ix nsamp nsamp_win i_max L0 = Some (Inr (Cs, Vector ?v, Lw))"
    by (simp add: network_similarity_def run stack)
  moreover have "length Lw = length ?v" by (simp add: Lw_def)
  moreover have "\<forall>i < length ix. length (Cs ! i) = length ?v \<and>
        (\<exists>data. extract_data st nsamp (ix ! i) = Inr data \<and>
           similarity_trace data nsamp nsamp_win i_max = Some (Inr (Cs ! i, Lw)))"
    using each by simp
  moreover have "\<forall>j < length ?v.
        ?v ! j = np_div (np_sum (map (\<lambda>C. C ! j) Cs)) (Fin (real (length ix)))"
    by simp
  ultimately show ?thesis using len by blast
qed

lemma similarity_trace_one_window:
  assumes "norm_xcorr (py_slice d0 0 4) (py_slice d1 0 4) 1 = Inr c1"
    and "norm_xcorr (py_slice d0 0 4) (py_slice d2 0 4) 1 = Inr c2"
  shows "similarity_trace (d0, d1, d2) 5 4 1 = Some (Inr ([np_div (np_add c1 c2) (Fin 2)], [2]))"
proof -
  have q: "int_quot 4 4 = 1" "int_quot 4 2 = 2" by (simp_all add: int_quot_def)
  have "similarity_loop (d0, d1, d2) 5 4 1 0 [] [] =
        similarity_loop (d0, d1, d2) 5 4 1 1 [np_div (np_add c1 c2) (Fin 2)] [2]"
    by (subst similarity_loop.simps) (simp add: assms q)
  also have "\<dots> = Some (Inr ([np_div (np_add c1 c2) (Fin 2)], [2]))"
    by (subst similarity_loop.simps) simp
  finally show ?thesis by (simp add: similarity_trace_def)
qed

lemma norm_xcorr_eval4:
  assumes "normalize_a (map Fin a) = map Fin [a0, a1, a2, a3]"
    and "normalize_b (map Fin b) = map Fin [b0, b1, b2, b3]"
  shows "norm_xcorr (map Fin a) (map Fin b) 1 =
           Inr (Fin (max (a0 * b1 + a1 * b2 + a2 * b3) (a0 * b0 + a1 * b1 + a2 * b2 + a3 * b3)))"
  unfolding norm_xcorr_def Let_def assms
  by (simp add: np_correlate_full_def correlate_entry_def np_sum_def upt_rec
        py_slice_def slice_bound_def np_max_def add.assoc)

lemma windows_w:
  "normalize_a (map Fin [1, -1, 1, -1]) = map Fin [1/4, -1/4, 1/4, -1/4]"
  "normalize_a (map Fin [1, 1, -1, -1]) = map Fin [1/4, 1/4, -1/4, -1/4]"
  "normalize_a (map Fin [1, -1, -1, 1]) = map Fin [1/4, -1/4, -1/4, 1/4]"
  "normalize_b (map Fin [1, -1, 1, -1]) = map Fin [1, -1, 1, -1]"
  "normalize_b (map Fin [1, 1, -1, -1]) = map Fin [1, 1, -1, -1]"
  "normalize_b (map Fin [1, -1, -1, 1]) = map Fin [1, -1, -1, 1]"
  by (simp_all add: normalize_a_def normalize_b_def np_std_def np_mean_def np_sum_def np_sub_def)

lemma pairs_w:
  "norm_xcorr (map Fin [1, -1, 1, -1]) (map Fin [1, 1, -1, -1]) 1 = Inr (Fin (1/4))"
  "norm_xcorr (map Fin [1, -1, 1, -1]) (map Fin [1, -1, -1, 1]) 1 = Inr (Fin (1/4))"
  "norm_xcorr (map Fin [1, 1, -1, -1]) (map Fin [1, -1, 1, -1]) 1 = Inr (Fin (1/4))"
  "norm_xcorr (map Fin [1, 1, -1, -1]) (map Fin [1, -1, -1, 1]) 1 = Inr (Fin 0)"
  "norm_xcorr (map Fin [1, -1, -1, 1]) (map Fin [1, 1, -1, -1]) 1 = Inr (Fin (3/4))"
  "norm_xcorr (map Fin [1, -1, -1, 1]) (map Fin [1, -1, 1, -1]) 1 = Inr (Fin 0)"
  by (simp_all add: norm_xcorr_eval4 [OF windows_w(1) windows_w(5)]
       norm_xcorr_eval4 [OF windows_w(1) windows_w(6)]
       norm_xcorr_eval4 [OF windows_w(2) windows_w(4)]
       norm_xcorr_eval4 [OF windows_w(2) windows_w(6)]
       norm_xcorr_eval4 [OF windows_w(3) windows_w(5)]
       norm_xcorr_eval4 [OF windows_w(3) windows_w(4)] del: list.map)

lemma rows_w:
  "station_row [[1, -1, 1, -1, 0], [1, 1, -1, -1, 0], [2, -2, -2, 2, 0]] 5 0 = Inr (map Fin [1, -1, 1, -1, 0])"
  "station_row [[1, -1, 1, -1, 0], [1, 1, -1, -1, 0], [2, -2, -2, 2, 0]] 5 1 = Inr (map Fin [1, 1, -1, -1, 0])"
  "station_row [[1, -1, 1, -1, 0], [1, 1, -1, -1, 0], [2, -2, -2, 2, 0]] 5 2 = Inr (map Fin [1, -1, -1, 1, 0])"
  by (simp_all add: station_row_def scale_trace_def np_max_def assign_row_def)

lemma slices_w:
  "py_slice (map Fin [1, -1, 1, -1, 0]) 0 4 = map Fin [1, -1, 1, -1]"
  "py_slice (map Fin [1, 1, -1, -1, 0]) 0 4 = map Fin [1, 1, -1, -1]"
  "py_slice (map Fin [1, -1, -1, 1, 0]) 0 4 = map Fin [1, -1, -1, 1]"
  by (simp_all add: py_slice_def slice_bound_def)

lemma network_similarity_example:
  "network_similarity [[1, -1, 1, -1, 0], [1, 1, -1, -1, 0], [2, -2, -2, 2, 0]]
       [(0, 1, 2), (1, 0, 2), (2, 1, 0)] 5 4 1 [] =
     Some (Inr ([[Fin (1/4)], [Fin (1/8)], [Fin (3/8)]], Vector [Fin (1/4)], [2]))"
proof -
  let ?r0 = "map Fin [1, -1, 1, -1, 0]" and ?r1 = "map Fin [1, 1, -1, -1, 0]"
    and ?r2 = "map Fin [1, -1, -1, 1, 0]"
  have p: "norm_xcorr (py_slice ?r0 0 4) (py_slice ?r1 0 4) 1 = Inr (Fin (1/4))"
    "norm_xcorr (py_slice ?r0 0 4) (py_slice ?r2 0 4) 1 = Inr (Fin (1/4))"
    "norm_xcorr (py_slice ?r1 0 4) (py_slice ?r0 0 4) 1 = Inr (Fin (1/4))"
    "norm_xcorr (py_slice ?r1 0 4) (py_slice ?r2 0 4) 1 = Inr (Fin 0)"
    "norm_xcorr (py_slice ?r2 0 4) (py_slice ?r1 0 4) 1 = Inr (Fin (3/4))"
    "norm_xcorr (py_slice ?r2 0 4) (py_slice ?r0 0 4) 1 = Inr (Fin 0)"
    unfolding slices_w by (rule pairs_w)+
  have t0: "similarity_trace (?r0, ?r1, ?r2) 5 4 1 = Some (Inr ([Fin (1/4)], [2]))"
    using similarity_trace_one_window [OF p(1) p(2)] by simp
  have t1: "similarity_trace (?r1, ?r0, ?r2) 5 4 1 = Some (Inr ([Fin (1/8)], [2]))"
    using similarity_trace_one_window [OF p(3) p(4)] by simp
  have t2: "similarity_trace (?r2, ?r1, ?r0) 5 4 1 = Some (Inr ([Fin (3/8)], [2]))"
    using similarity_trace_one_window [OF p(5) p(6)] by simp
  have "stack_loop [[1, -1, 1, -1, 0], [1, 1, -1, -1, 0], [2, -2, -2, 2, 0]]
       [(0, 1, 2), (1, 0, 2), (2, 1, 0)] 5 4 1 [] [] =
      Some (Inr ([[Fin (1/4)], [Fin (1/8)], [Fin (3/8)]], [2]))"
    by (simp add: extract_data_def rows_w rows_w(2) [unfolded One_nat_def] t0 t1 t2 del: list.map)
  then show ?thesis
    by (simp add: network_similarity_def network_stack_def np_sum_def)
qed

theorem network_similarity_is_mean_witness:
  "network_similarity [[1, -1, 1, -1, 0], [1, 1, -1, -1, 0], [2, -2, -2, 2, 0]]
       [(0, 1, 2), (1, 0, 2), (2, 1, 0)] 5 4 1 [] =
     Some (Inr ([[Fin (1/4)], [Fin (1/8)], [Fin (3/8)]], Vector [Fin (1/4)], [2])) \<and>
   np_div (np_sum [Fin (1/4), Fin (1/8), Fin (3/8)]) (Fin 3) = Fin (1/4)"
proof -
  let ?st = "[[1, -1, 1, -1, 0], [1, 1, -1, -1, 0], [2, -2, -2, 2, 0 :: real]]"
  let ?ix = "[(0, 1, 2), (1, 0, 2), (2, 1, 0)] :: (nat \<times> nat \<times> nat) list"
  have h: "4 \<le> (4::int)" "1 \<le> (1::int)" "0 < (5::nat)" by simp_all
  have st: "\<forall>s \<in> set ?st. length s = 5" by simp
  have ix: "\<forall>(j0, j1, j2) \<in> set ?ix. j0 < length ?st \<and> j1 < length ?st \<and> j2 < length ?st"
    by simp
  have ne: "?ix \<noteq> []" by simp
  from network_similarity_is_mean [OF h st ix ne, of "[]"] obtain C_stack2D C_stack L where
    "network_similarity ?st ?ix 5 4 1 [] = Some (Inr (C_stack2D, Vector C_stack, L))"
    "\<forall>j < length C_stack.
        C_stack ! j = np_div (np_sum (map (\<lambda>C. C ! j) C_stack2D)) (Fin (real (length ?ix)))"
    by blast
  then show ?thesis
    unfolding network_similarity_example by auto
qed

section \<open>What the sliding loop appends\<close>

text \<open>
  Claim C7: for a window of at least 4 samples, a maximum lag of at least 1 and three
  rows of \<open>nsamp\<close> samples, the loop returns a trace with one entry for every window
  start \<open>m * int(nsamp_win/4)\<close> below \<open>nsamp - nsamp_win\<close> (their number is the quotient of
  \<open>nsamp - nsamp_win\<close> by the step, rounded up). Entry \<open>m\<close> is the mean of the two
  normalized cross-correlations of the reference row's window \<open>m\<close> with the windows of its
  two neighbours, both of which return, and the index recorded with it is the window's
  start plus half the window length.
\<close>

theorem similarity_trace_entries:
  assumes "4 \<le> nsamp_win" and "1 \<le> i_max"
    and "length d0 = nsamp" and "length d1 = nsamp" and "length d2 = nsamp"
  shows "\<exists>C L. similarity_trace (d0, d1, d2) nsamp nsamp_win i_max = Some (Inr (C, L)) \<and>
     length C = nat ((int nsamp - nsamp_win + int_quot nsamp_win 4 - 1)
                       div int_quot nsamp_win 4) \<and>
     length L = length C \<and>
     (\<forall>m < length C. \<exists>c1 c2.
        norm_xcorr (py_slice d0 (int m * int_quot nsamp_win 4)
                      (int m * int_quot nsamp_win 4 + nsamp_win))
                   (py_slice d1 (int m * int_quot nsamp_win 4)
                      (int m * int_quot nsamp_win 4 + nsamp_win)) i_max = Inr c1 \<and>
        norm_xcorr (py_slice d0 (int m * int_quot nsamp_win 4)
                      (int m * int_quot nsamp_win 4 + nsamp_win))
                   (py_slice d2 (int m * int_quot nsamp_win 4)
                      (int m * int_quot nsamp_win 4 + nsamp_win)) i_max = Inr c2 \<and>
        C ! m = np_div (np_add c1 c2) (Fin 2) \<and>
        L ! m = int m * int_quot nsamp_win 4 + int_quot nsamp_win 2)"
proof -
  from similarity_loop_runs [OF assms, of 0 "[]" "[]"]
  obtain C where run: "similarity_loop (d0, d1, d2) (int nsamp) nsamp_win i_max 0 [] [] =
           Some (Inr (C,
             map (\<lambda>m. int m * int_quot nsamp_win 4 + int_quot nsamp_win 2)
                   [0..<nat ((int nsamp - nsamp_win + int_quot nsamp_win 4 - 1)
                              div int_quot nsamp_win 4)]))"
    and n: "length C = nat ((int nsamp - nsamp_win + int_quot nsamp_win 4 - 1)
                            div int_quot nsamp_win 4)"
    and each: "\<forall>m < length C. \<exists>c1 c2.
            norm_xcorr (py_slice d0 (int m * int_quot nsamp_win 4)
                          (int m * int_quot nsamp_win 4 + nsamp_win))
                       (py_slice d1 (int m * int_quot nsamp_win 4)
                          (int m * int_quot nsamp_win 4 + nsamp_win)) i_max = Inr c1 \<and>
            norm_xcorr (py_slice d0 (int m * int_quot nsamp_win 4)
                          (int m * int_quot nsamp_win 4 + nsamp_win))
                       (py_slice d2 (int m * int_quot nsamp_win 4)
                          (int m * int_quot nsamp_win 4 + nsamp_win)) i_max = Inr c2 \<and>
            C ! m = np_div (np_add c1 c2) (Fin 2)"
    by auto
  show ?thesis
    unfolding similarity_trace_def run
    using n each by (intro exI conjI) (rule refl, simp, simp, simp)
qed

text \<open>
  A trace of two windows: rows of 6 samples, windows of 4 samples starting at 0 and 1.
\<close>

lemma windows_v:
  "normalize_a (map Fin [-1, 1, -1, 1]) = map Fin [-1/4, 1/4, -1/4, 1/4]"
  "normalize_b (map Fin [-1, -1, 1, 1]) = map Fin [-1, -1, 1, 1]"
  by (simp_all add: normalize_a_def normalize_b_def np_std_def np_mean_def np_sum_def np_sub_def)

lemma pairs_v:
  "norm_xcorr (map Fin [-1, 1, -1, 1]) (map Fin [1, -1, -1, 1]) 1 = Inr (Fin 0)"
  "norm_xcorr (map Fin [-1, 1, -1, 1]) (map Fin [-1, -1, 1, 1]) 1 = Inr (Fin (1/4))"
  by (simp_all add: norm_xcorr_eval4 [OF windows_v(1) windows_w(6)]
       norm_xcorr_eval4 [OF windows_v(1) windows_v(2)] del: list.map)

lemma slices_v:
  "py_slice (map Fin [1, -1, 1, -1, 1, 0]) 0 4 = map Fin [1, -1, 1, -1]"
  "py_slice (map Fin [1, 1, -1, -1, 1, 0]) 0 4 = map Fin [1, 1, -1, -1]"
  "py_slice (map Fin [1, -1, -1, 1, 1, 0]) 0 4 = map Fin [1, -1, -1, 1]"
  "py_slice (map Fin [1, -1, 1, -1, 1, 0]) 1 5 = map Fin [-1, 1, -1, 1]"
  "py_slice (map Fin [1, 1, -1, -1, 1, 0]) 1 5 = map Fin [1, -1, -1, 1]"
  "py_slice (map Fin [1, -1, -1, 1, 1, 0]) 1 5 = map Fin [-1, -1, 1, 1]"
  by (simp_all add: py_slice_def slice_bound_def)

lemma similarity_trace_two_windows:
  "similarity_trace (map Fin [1, -1, 1, -1, 1, 0], map Fin [1, 1, -1, -1, 1, 0],
                     map Fin [1, -1, -1, 1, 1, 0]) 6 4 1
     = Some (Inr ([Fin (1/4), Fin (1/8)], [2, 3]))"
proof -
  let ?d = "(map Fin [1, -1, 1, -1, 1, 0], map Fin [1, 1, -1, -1, 1, 0],
             map Fin [1, -1, -1, 1, 1, 0])"
  have q: "int_quot 4 4 = 1" "int_quot 4 2 = 2" by (simp_all add: int_quot_def)
  have "similarity_loop ?d 6 4 1 0 [] [] = similarity_loop ?d 6 4 1 1 [Fin (1/4)] [2]"
    by (subst similarity_loop.simps)
       (simp add: slices_v pairs_w q del: list.map)
  also have "\<dots> = similarity_loop ?d 6 4 1 2 [Fin (1/4), Fin (1/8)] [2, 3]"
    by (subst similarity_loop.simps)
       (simp add: slices_v pairs_v q del: list.map)
  also have "\<dots> = Some (Inr ([Fin (1/4), Fin (1/8)], [2, 3]))"
    by (subst similarity_loop.simps) simp
  finally show ?thesis by (simp add: similarity_trace_def)
qed

theorem similarity_trace_entries_witness:
  "similarity_trace (map Fin [1, -1, 1, -1, 1, 0], map Fin [1, 1, -1, -1, 1, 0],
                     map Fin [1, -1, -1, 1, 1, 0]) 6 4 1
     = Some (Inr ([Fin (1/4), Fin (1/8)], [2, 3])) \<and>
   nat ((int 6 - 4 + int_quot 4 4 - 1) div int_quot 4 4) = 2"
proof -
  have h: "4 \<le> (4::int)" "1 \<le> (1::int)"
    "length (map Fin [1, -1, 1, -1, 1, 0]) = 6"
    "length (map Fin [1, 1, -1, -1, 1, 0]) = 6"
    "length (map Fin [1, -1, -1, 1, 1, 0]) = 6" by simp_all
  from similarity_trace_entries [OF h] obtain C L where
    "similarity_trace (map Fin [1, -1, 1, -1, 1, 0], map Fin [1, 1, -1, -1, 1, 0],
                     map Fin [1, -1, -1, 1, 1, 0]) 6 4 1 = Some (Inr (C, L))"
    "length C = nat ((int 6 - 4 + int_quot 4 4 - 1) div int_quot 4 4)"
    by blast
  then show ?thesis unfolding similarity_trace_two_windows by auto
qed

section \<open>A silent window in the network stack\<close>

lemma silent_pairs:
  "norm_xcorr (map Fin [1, -1, 1, -1]) (map Fin [1, 1, 1, 1]) 1 = Inr NaN"
  "norm_xcorr (map Fin [1, 1, 1, 1]) (map Fin [1, -1, 1, -1]) 1 = Inr NaN"
  "norm_xcorr (map Fin [1, 1, 1, 1]) (map Fin [1, -1, -1, 1]) 1 = Inr NaN"
  "norm_xcorr (map Fin [1, -1, -1, 1]) (map Fin [1, 1, 1, 1]) 1 = Inr NaN"
proof -
  have z: "real_std [1, 1, 1, 1] = 0" by (simp add: real_std_def real_mean_def)
  show "norm_xcorr (map Fin [1, -1, 1, -1]) (map Fin [1, 1, 1, 1]) 1 = Inr NaN"
    by (rule norm_xcorr_silent) (simp_all add: z)
  show "norm_xcorr (map Fin [1, 1, 1, 1]) (map Fin [1, -1, 1, -1]) 1 = Inr NaN"
    by (rule norm_xcorr_silent) (simp_all add: z)
  show "norm_xcorr (map Fin [1, 1, 1, 1]) (map Fin [1, -1, -1, 1]) 1 = Inr NaN"
    by (rule norm_xcorr_silent) (simp_all add: z)
  show "norm_xcorr (map Fin [1, -1, -1, 1]) (map Fin [1, 1, 1, 1]) 1 = Inr NaN"
    by (rule norm_xcorr_silent) (simp_all add: z)
qed

text \<open>
  Claim C5 as stated (a zero-variance window gives the sentinel zero, a NaN being treated
  as zero downstream) fails on the code. Station 1 below is constant over the only
  window (samples 0..3): its correlations are NaN, and NaN is what every station's trace
  and the network stack hold for that window.
\<close>

theorem silent_window_not_zero:
  "np_std (map Fin [1, 1, 1, 1]) = Fin 0 \<and>
   norm_xcorr (map Fin [1, -1, 1, -1]) (map Fin [1, 1, 1, 1]) 1 = Inr NaN \<and>
   network_similarity [[1, -1, 1, -1, 0], [3, 3, 3, 3, 0], [1, -1, -1, 1, 0]]
       [(0, 1, 2), (1, 0, 2), (2, 1, 0)] 5 4 1 [] =
     Some (Inr ([[NaN], [NaN], [NaN]], Vector [NaN], [2]))"
proof -
  let ?st = "[[1, -1, 1, -1, 0], [3, 3, 3, 3, 0], [1, -1, -1, 1, 0 :: real]]"
  let ?r0 = "map Fin [1, -1, 1, -1, 0]" and ?r1 = "map Fin [1, 1, 1, 1, 0]"
    and ?r2 = "map Fin [1, -1, -1, 1, 0]"
  have s: "np_std (map Fin [1, 1, 1, 1]) = Fin 0"
    by (simp add: np_std_def np_mean_def np_sum_def np_sub_def)
  have rows: "station_row ?st 5 0 = Inr ?r0" "station_row ?st 5 (Suc 0) = Inr ?r1"
    "station_row ?st 5 2 = Inr ?r2"
    by (simp_all add: station_row_def scale_trace_def np_max_def assign_row_def)
  have sl: "py_slice ?r1 0 4 = map Fin [1, 1, 1, 1]"
    by (simp add: py_slice_def slice_bound_def)
  have p: "norm_xcorr (py_slice ?r0 0 4) (py_slice ?r1 0 4) 1 = Inr NaN"
    "norm_xcorr (py_slice ?r0 0 4) (py_slice ?r2 0 4) 1 = Inr (Fin (1/4))"
    "norm_xcorr (py_slice ?r1 0 4) (py_slice ?r0 0 4) 1 = Inr NaN"
    "norm_xcorr (py_slice ?r1 0 4) (py_slice ?r2 0 4) 1 = Inr NaN"
    "norm_xcorr (py_slice ?r2 0 4) (py_slice ?r1 0 4) 1 = Inr NaN"
    "norm_xcorr (py_slice ?r2 0 4) (py_slice ?r0 0 4) 1 = Inr (Fin 0)"
    unfolding slices_w sl
    by (rule silent_pairs(1), rule pairs_w(2), rule silent_pairs(2), rule silent_pairs(3),
        rule silent_pairs(4), rule pairs_w(6))
  have t0: "similarity_trace (?r0, ?r1, ?r2) 5 4 1 = Some (Inr ([NaN], [2]))"
    using similarity_trace_one_window [OF p(1) p(2)] by simp
  have t1: "similarity_trace (?r1, ?r0, ?r2) 5 4 1 = Some (Inr ([NaN], [2]))"
    using similarity_trace_one_window [OF p(3) p(4)] by simp
  have t2: "similarity_trace (?r2, ?r1, ?r0) 5 4 1 = Some (Inr ([NaN], [2]))"
    using similarity_trace_one_window [OF p(5) p(6)] by simp
  have "stack_loop ?st [(0, 1, 2), (1, 0, 2), (2, 1, 0)] 5 4 1 [] [] =
      Some (Inr ([[NaN], [NaN], [NaN]], [2]))"
    by (simp add: extract_data_def rows t0 t1 t2 del: list.map)
  then have "network_similarity ?st [(0, 1, 2), (1, 0, 2), (2, 1, 0)] 5 4 1 [] =
     Some (Inr ([[NaN], [NaN], [NaN]], Vector [NaN], [2]))"
    by (simp add: network_similarity_def network_stack_def np_sum_def)
  with s silent_pairs(1) show ?thesis by simp
qed

section \<open>A degenerate correlation is propagated\<close>

lemma np_add_NaN_left: "np_add NaN x = NaN"
  by (cases x) simp_all

lemma np_div_NaN_left: "np_div NaN x = NaN"
  by (cases x) simp_all

lemma window_mean_NaN:
  "c1 = NaN \<or> c2 = NaN \<Longrightarrow> np_div (np_add c1 c2) (Fin 2) = NaN"
  by (auto simp: np_add_NaN_left np_div_NaN_left)

lemma stack_entry_NaN:
  assumes "i < length Cs" and "Cs ! i ! m = NaN"
  shows "np_div (np_sum (map (\<lambda>C. C ! m) Cs)) (Fin n) = NaN"
proof -
  have "NaN \<in> set (map (\<lambda>C. C ! m) Cs)"
    using assms by (auto simp: in_set_conv_nth intro!: image_eqI [where x = "Cs ! i"])
  then show ?thesis by (simp add: np_sum_NaN np_div_NaN_left)
qed

lemma similarity_trace_windows:
  assumes w: "4 \<le> nsamp_win" and i: "1 \<le> i_max"
    and d: "length d0 = nsamp" "length d1 = nsamp" "length d2 = nsamp"
    and tr: "similarity_trace (d0, d1, d2) nsamp nsamp_win i_max = Some (Inr (C, L))"
  shows "\<forall>m < length C. \<exists>c1 c2.
            norm_xcorr (py_slice d0 (int m * int_quot nsamp_win 4)
                          (int m * int_quot nsamp_win 4 + nsamp_win))
                       (py_slice d1 (int m * int_quot nsamp_win 4)
                          (int m * int_quot nsamp_win 4 + nsamp_win)) i_max = Inr c1 \<and>
            norm_xcorr (py_slice d0 (int m * int_quot nsamp_win 4)
                          (int m * int_quot nsamp_win 4 + nsamp_win))
                       (py_slice d2 (int m * int_quot nsamp_win 4)
                          (int m * int_quot nsamp_win 4 + nsamp_win)) i_max = Inr c2 \<and>
            C ! m = np_div (np_add c1 c2) (Fin 2)"
  using similarity_loop_runs [OF w i d, of 0 "[]" "[]"] tr
  unfolding similarity_trace_def by auto

text \<open>
  Claim C5, as amended: for windows of at least 4 samples, a maximum lag of at least 1,
  traces of \<open>nsamp > 0\<close> samples and a non-empty neighbour table with valid station
  indices, the network cell returns, whatever the samples are: for every station and
  every one of its windows (a zero-variance window included) both normalized
  cross-correlations return a value and none raises. No sentinel is put in the place of
  a degenerate value: the station's entry for the window is \<^verbatim>\<open>(c1+c2)/2.\<close> of what the
  two correlations returned, and when one of them is NaN, that entry is NaN and so is
  the entry of the network stack for that window.
\<close>

theorem degenerate_window_is_propagated:
  assumes w: "4 \<le> nsamp_win" and i: "1 \<le> i_max" and n: "0 < nsamp"
    and st: "\<forall>s \<in> set st. length s = nsamp"
    and ix: "\<forall>(j0, j1, j2) \<in> set ix. j0 < length st \<and> j1 < length st \<and> j2 < length st"
    and ne: "ix \<noteq> []"
  shows "\<exists>C_stack2D C_stack L.
     network_similarity st ix nsamp nsamp_win i_max L0 = Some (Inr (C_stack2D, Vector C_stack, L)) \<and>
     length C_stack2D = length ix \<and>
     length C_stack = nat ((int nsamp - nsamp_win + int_quot nsamp_win 4 - 1)
                             div int_quot nsamp_win 4) \<and>
     (\<forall>i < length ix. length (C_stack2D ! i) = length C_stack \<and>
        (\<exists>d0 d1 d2. extract_data st nsamp (ix ! i) = Inr (d0, d1, d2) \<and>
           (\<forall>m < length C_stack. \<exists>c1 c2.
              norm_xcorr (py_slice d0 (int m * int_quot nsamp_win 4)
                            (int m * int_quot nsamp_win 4 + nsamp_win))
                         (py_slice d1 (int m * int_quot nsamp_win 4)
                            (int m * int_quot nsamp_win 4 + nsamp_win)) i_max = Inr c1 \<and>
              norm_xcorr (py_slice d0 (int m * int_quot nsamp_win 4)
                            (int m * int_quot nsamp_win 4 + nsamp_win))
                         (py_slice d2 (int m * int_quot nsamp_win 4)
                            (int m * int_quot nsamp_win 4 + nsamp_win)) i_max = Inr c2 \<and>
              C_stack2D ! i ! m = np_div (np_add c1 c2) (Fin 2) \<and>
              (c1 = NaN \<or> c2 = NaN \<longrightarrow> C_stack2D ! i ! m = NaN \<and> C_stack ! m = NaN))))"
proof -
  define k where "k = nat ((int nsamp - nsamp_win + int_quot nsamp_win 4 - 1) div int_quot nsamp_win 4)"
  define Lw where "Lw = map (\<lambda>m. int m * int_quot nsamp_win 4 + int_quot nsamp_win 2) [0..<k]"
  have ix': "\<forall>r \<in> set ix. fst r < length st \<and> fst (snd r) < length st \<and> snd (snd r) < length st"
    using ix by auto
  from stack_loop_runs [OF w i n st ix', of "[]" L0]
  obtain Cs where run: "stack_loop st ix nsamp nsamp_win i_max [] L0 = Some (Inr (Cs, Lw))"
    and len: "length Cs = length ix"
    and each: "\<forall>i < length ix. length (Cs ! i) = k \<and>
             (\<exists>data. extract_data st nsamp (ix ! i) = Inr data \<and>
                similarity_trace data nsamp nsamp_win i_max = Some (Inr (Cs ! i, Lw)))"
    using ne unfolding k_def Lw_def by auto
  obtain C Cs' where Cs: "Cs = C # Cs'"
    using len ne by (cases Cs) auto
  have rows: "\<forall>r \<in> set Cs. length r = k"
    using each len by (auto simp: in_set_conv_nth)
  then have C: "length C = k" and "list_all (\<lambda>r. length r = length C) Cs'"
    using Cs by (simp_all add: list_all_iff)
  then have stack: "network_stack Cs (length ix) =
      Inr (Vector (map (\<lambda>j. np_div (np_sum (map (\<lambda>r. r ! j) Cs)) (Fin (real (length ix)))) [0..<k]))"
    by (simp add: network_stack_def Cs)
  let ?v = "map (\<lambda>j. np_div (np_sum (map (\<lambda>r. r ! j) Cs)) (Fin (real (length ix)))) [0..<k]"
  have res: "network_similarity st ix nsamp nsamp_win i_max L0 = Some (Inr (Cs, Vector ?v, Lw))"
    by (simp add: network_similarity_def run stack)
  have lv: "length ?v = k" by simp
  have station: "length (Cs ! j) = length ?v \<and>
        (\<exists>d0 d1 d2. extract_data st nsamp (ix ! j) = Inr (d0, d1, d2) \<and>
           (\<forall>m < length ?v. \<exists>c1 c2.
              norm_xcorr (py_slice d0 (int m * int_quot nsamp_win 4)
                            (int m * int_quot nsamp_win 4 + nsamp_win))
                         (py_slice d1 (int m * int_quot nsamp_win 4)
                            (int m * int_quot nsamp_win 4 + nsamp_win)) i_max = Inr c1 \<and>
              norm_xcorr (py_slice d0 (int m * int_quot nsamp_win 4)
                            (int m * int_quot nsamp_win 4 + nsamp_win))
                         (py_slice d2 (int m * int_quot nsamp_win 4)
                            (int m * int_quot nsamp_win 4 + nsamp_win)) i_max = Inr c2 \<and>
              Cs ! j ! m = np_div (np_add c1 c2) (Fin 2) \<and>
              (c1 = NaN \<or> c2 = NaN \<longrightarrow> Cs ! j ! m = NaN \<and> ?v ! m = NaN)))"
    if j: "j < length ix" for j
  proof -
    obtain j0 j1 j2 where r: "ix ! j = (j0, j1, j2)" by (cases "ix ! j") auto
    have "ix ! j \<in> set ix" using j by simp
    then have "j0 < length st" "j1 < length st" "j2 < length st"
      using ix r by auto
    then obtain d0 d1 d2 where
      ex: "extract_data st nsamp (ix ! j) = Inr (d0, d1, d2)"
      and d: "length d0 = nsamp" "length d1 = nsamp" "length d2 = nsamp"
      using extract_data_returns [OF _ _ _ st n] r by metis
    have lj: "length (Cs ! j) = k"
      and tr: "similarity_trace (d0, d1, d2) nsamp nsamp_win i_max = Some (Inr (Cs ! j, Lw))"
      using each j ex by auto
    note win = similarity_trace_windows [OF w i d tr]
    have "\<exists>c1 c2.
              norm_xcorr (py_slice d0 (int m * int_quot nsamp_win 4)
                            (int m * int_quot nsamp_win 4 + nsamp_win))
                         (py_slice d1 (int m * int_quot nsamp_win 4)
                            (int m * int_quot nsamp_win 4 + nsamp_win)) i_max = Inr c1 \<and>
              norm_xcorr (py_slice d0 (int m * int_quot nsamp_win 4)
                            (int m * int_quot nsamp_win 4 + nsamp_win))
                         (py_slice d2 (int m * int_quot nsamp_win 4)
                            (int m * int_quot nsamp_win 4 + nsamp_win)) i_max = Inr c2 \<and>
              Cs ! j ! m = np_div (np_add c1 c2) (Fin 2) \<and>
              (c1 = NaN \<or> c2 = NaN \<longrightarrow> Cs ! j ! m = NaN \<and> ?v ! m = NaN)"
      if m: "m < length ?v" for m
    proof -
      have mk: "m < k" using m by simp
      then have "m < length (Cs ! j)" using lj by simp
      with win obtain c1 c2 where
        c: "norm_xcorr (py_slice d0 (int m * int_quot nsamp_win 4)
                            (int m * int_quot nsamp_win 4 + nsamp_win))
                         (py_slice d1 (int m * int_quot nsamp_win 4)
                            (int m * int_quot nsamp_win 4 + nsamp_win)) i_max = Inr c1"
           "norm_xcorr (py_slice d0 (int m * int_quot nsamp_win 4)
                            (int m * int_quot nsamp_win 4 + nsamp_win))
                         (py_slice d2 (int m * int_quot nsamp_win 4)
                            (int m * int_quot nsamp_win 4 + nsamp_win)) i_max = Inr c2"
           "Cs ! j ! m = np_div (np_add c1 c2) (Fin 2)"
        by blast
      have "Cs ! j ! m = NaN \<and> ?v ! m = NaN" if "c1 = NaN \<or> c2 = NaN"
      proof -
        have e: "Cs ! j ! m = NaN" using c(3) window_mean_NaN [OF that] by simp
        have "j < length Cs" using j len by simp
        from stack_entry_NaN [OF this e] have "?v ! m = NaN" using mk by simp
        with e show ?thesis by simp
      qed
      with c show ?thesis by blast
    qed
    with ex lj lv show ?thesis by auto
  qed
  show ?thesis
    using res len lv station unfolding k_def by blast
qed

text \<open>
  Four stations and one window; station 3 is constant over the window, so its
  correlations are NaN: its own entry is NaN and the stack's entry is NaN, while the
  other stations' entries are finite.
\<close>

lemma rows_s:
  "station_row [[1, -1, 1, -1, 0], [1, 1, -1, -1, 0], [2, -2, -2, 2, 0], [7, 7, 7, 7, 0]] 5 0
     = Inr (map Fin [1, -1, 1, -1, 0])"
  "station_row [[1, -1, 1, -1, 0], [1, 1, -1, -1, 0], [2, -2, -2, 2, 0], [7, 7, 7, 7, 0]] 5 1
     = Inr (map Fin [1, 1, -1, -1, 0])"
  "station_row [[1, -1, 1, -1, 0], [1, 1, -1, -1, 0], [2, -2, -2, 2, 0], [7, 7, 7, 7, 0]] 5 2
     = Inr (map Fin [1, -1, -1, 1, 0])"
  "station_row [[1, -1, 1, -1, 0], [1, 1, -1, -1, 0], [2, -2, -2, 2, 0], [7, 7, 7, 7, 0]] 5 3
     = Inr (map Fin [1, 1, 1, 1, 0])"
  by (simp_all add: station_row_def scale_trace_def np_max_def assign_row_def)

lemma silent_station_example:
  "network_similarity [[1, -1, 1, -1, 0], [1, 1, -1, -1, 0], [2, -2, -2, 2, 0], [7, 7, 7, 7, 0]]
       [(0, 1, 2), (1, 0, 2), (2, 1, 0), (3, 2, 0)] 5 4 1 [] =
     Some (Inr ([[Fin (1/4)], [Fin (1/8)], [Fin (3/8)], [NaN]], Vector [NaN], [2]))"
proof -
  let ?st = "[[1, -1, 1, -1, 0], [1, 1, -1, -1, 0], [2, -2, -2, 2, 0], [7, 7, 7, 7, 0 :: real]]"
  let ?r0 = "map Fin [1, -1, 1, -1, 0]" and ?r1 = "map Fin [1, 1, -1, -1, 0]"
    and ?r2 = "map Fin [1, -1, -1, 1, 0]" and ?r3 = "map Fin [1, 1, 1, 1, 0]"
  have sl: "py_slice ?r3 0 4 = map Fin [1, 1, 1, 1]"
    by (simp add: py_slice_def slice_bound_def)
  have p: "norm_xcorr (py_slice ?r0 0 4) (py_slice ?r1 0 4) 1 = Inr (Fin (1/4))"
    "norm_xcorr (py_slice ?r0 0 4) (py_slice ?r2 0 4) 1 = Inr (Fin (1/4))"
    "norm_xcorr (py_slice ?r1 0 4) (py_slice ?r0 0 4) 1 = Inr (Fin (1/4))"
    "norm_xcorr (py_slice ?r1 0 4) (py_slice ?r2 0 4) 1 = Inr (Fin 0)"
    "norm_xcorr (py_slice ?r2 0 4) (py_slice ?r1 0 4) 1 = Inr (Fin (3/4))"
    "norm_xcorr (py_slice ?r2 0 4) (py_slice ?r0 0 4) 1 = Inr (Fin 0)"
    unfolding slices_w by (rule pairs_w)+
  have s: "norm_xcorr (py_slice ?r3 0 4) (py_slice ?r2 0 4) 1 = Inr NaN"
    "norm_xcorr (py_slice ?r3 0 4) (py_slice ?r0 0 4) 1 = Inr NaN"
    unfolding slices_w sl by (rule silent_pairs(3), rule silent_pairs(2))
  have t0: "similarity_trace (?r0, ?r1, ?r2) 5 4 1 = Some (Inr ([Fin (1/4)], [2]))"
    using similarity_trace_one_window [OF p(1) p(2)] by simp
  have t1: "similarity_trace (?r1, ?r0, ?r2) 5 4 1 = Some (Inr ([Fin (1/8)], [2]))"
    using similarity_trace_one_window [OF p(3) p(4)] by simp
  have t2: "similarity_trace (?r2, ?r1, ?r0) 5 4 1 = Some (Inr ([Fin (3/8)], [2]))"
    using similarity_trace_one_window [OF p(5) p(6)] by simp
  have t3: "similarity_trace (?r3, ?r2, ?r0) 5 4 1 = Some (Inr ([NaN], [2]))"
    using similarity_trace_one_window [OF s(1) s(2)] by simp
  have "stack_loop ?st [(0, 1, 2), (1, 0, 2), (2, 1, 0), (3, 2, 0)] 5 4 1 [] [] =
      Some (Inr ([[Fin (1/4)], [Fin (1/8)], [Fin (3/8)], [NaN]], [2]))"
    by (simp add: extract_data_def rows_s rows_s(2) [unfolded One_nat_def] t0 t1 t2 t3
          del: list.map)
  then show ?thesis
    by (simp add: network_similarity_def network_stack_def np_sum_def)
qed

theorem degenerate_window_is_propagated_witness:
  "network_similarity [[1, -1, 1, -1, 0], [1, 1, -1, -1, 0], [2, -2, -2, 2, 0], [7, 7, 7, 7, 0]]
       [(0, 1, 2), (1, 0, 2), (2, 1, 0), (3, 2, 0)] 5 4 1 [] =
     Some (Inr ([[Fin (1/4)], [Fin (1/8)], [Fin (3/8)], [NaN]], Vector [NaN], [2])) \<and>
   norm_xcorr (map Fin [1, 1, 1, 1]) (map Fin [1, -1, -1, 1]) 1 = Inr NaN"
proof -
  let ?st = "[[1, -1, 1, -1, 0], [1, 1, -1, -1, 0], [2, -2, -2, 2, 0], [7, 7, 7, 7, 0 :: real]]"
  let ?ix = "[(0, 1, 2), (1, 0, 2), (2, 1, 0), (3, 2, 0)] :: (nat \<times> nat \<times> nat) list"
  have h: "4 \<le> (4::int)" "1 \<le> (1::int)" "0 < (5::nat)" by simp_all
  have st: "\<forall>s \<in> set ?st. length s = 5" by simp
  have ix: "\<forall>(j0, j1, j2) \<in> set ?ix. j0 < length ?st \<and> j1 < length ?st \<and> j2 < length ?st"
    by simp
  have ne: "?ix \<noteq> []" by simp
  from degenerate_window_is_propagated [OF h st ix ne, of "[]"] obtain C_stack2D C_stack L where
    "network_similarity ?st ?ix 5 4 1 [] = Some (Inr (C_stack2D, Vector C_stack, L))"
    by blast
  then show ?thesis
    unfolding silent_station_example using silent_pairs(3) by auto
qed

section \<open>Cross-correlation of finite sequences\<close>

lemma comprehension_filter:
  "concat (map (\<lambda>n. if P n then if Q n then [f n] else [] else []) ns) =
   map f (filter (\<lambda>n. P n \<and> Q n) ns)"
  by (induction ns) simp_all

lemma correlate_entry_Fin:
  "correlate_entry (map Fin x) (map Fin y) j = Fin (lag_sum x y j)"
proof -
  let ?ns = "filter (\<lambda>n. length y \<le> n + j + 1 \<and> n + j + 1 - length y < length x) [0..<length y]"
  have eq: "map (\<lambda>n. np_mul (map Fin x ! (n + j + 1 - length y)) (map Fin y ! n)) ?ns
      = map (\<lambda>n. Fin (x ! (n + j + 1 - length y) * y ! n)) ?ns"
    by (rule map_cong) auto
  have "correlate_entry (map Fin x) (map Fin y) j
      = np_sum (map (\<lambda>n. np_mul (map Fin x ! (n + j + 1 - length y)) (map Fin y ! n)) ?ns)"
    unfolding correlate_entry_def length_map comprehension_filter ..
  also have "\<dots> = np_sum (map Fin (map (\<lambda>n. x ! (n + j + 1 - length y) * y ! n) ?ns))"
    unfolding eq by (simp only: map_map comp_def)
  also have "\<dots> = Fin (lag_sum x y j)"
    unfolding np_sum_Fin lag_sum_def ..
  finally show ?thesis .
qed

lemma np_correlate_full_Fin:
  assumes "x \<noteq> []" and "y \<noteq> []"
  shows "np_correlate_full (map Fin x) (map Fin y) =
           Inr (map Fin (map (lag_sum x y) [0..<length x + length y - 1]))"
  using assms by (simp add: np_correlate_full_def correlate_entry_Fin)

lemma py_slice_map: "py_slice (map f xs) s e = map f (py_slice xs s e)"
  by (simp add: py_slice_def Let_def take_map drop_map)

lemma sum_list_divide: "(\<Sum>n\<leftarrow>ns. f n / (k::real)) = (\<Sum>n\<leftarrow>ns. f n) / k"
  by (induction ns) (simp_all add: add_divide_distrib)

lemma lag_sum_scale:
  "lag_sum (map (\<lambda>v. f v / ca) x) (map (\<lambda>v. g v / cb) y) j =
     lag_sum (map f x) (map g y) j / (ca * cb)"
proof -
  let ?ns = "filter (\<lambda>n. length y \<le> n + j + 1 \<and> n + j + 1 - length y < length x) [0..<length y]"
  have eq: "map (\<lambda>n. map (\<lambda>v. f v / ca) x ! (n + j + 1 - length y) * map (\<lambda>v. g v / cb) y ! n) ?ns
      = map (\<lambda>n. (map f x ! (n + j + 1 - length y) * map g y ! n) / (ca * cb)) ?ns"
    by (rule map_cong) auto
  show ?thesis
    unfolding lag_sum_def length_map eq sum_list_divide ..
qed

text \<open>On finite operands of non-zero variance the normalized sequences are finite.\<close>

lemma normalize_a_finite:
  assumes "a \<noteq> []" and "real_std a \<noteq> 0"
  shows "normalize_a (map Fin a) =
           map Fin (map (\<lambda>x. (x - real_mean a) / (real_std a * real (length a))) a)"
  using assms by (simp add: normalize_a_Fin)

lemma normalize_b_finite:
  assumes "b \<noteq> []" and "real_std b \<noteq> 0"
  shows "normalize_b (map Fin b) = map Fin (map (\<lambda>x. (x - real_mean b) / real_std b) b)"
  using assms by (simp add: normalize_b_Fin)

lemma xcorr_finite:
  assumes "a \<noteq> []" and "b \<noteq> []" and "real_std a \<noteq> 0" and "real_std b \<noteq> 0"
  shows "np_correlate_full (normalize_a (map Fin a)) (normalize_b (map Fin b)) =
     Inr (map Fin (map (\<lambda>j. lag_sum (map (\<lambda>x. x - real_mean a) a) (map (\<lambda>x. x - real_mean b) b) j
                          / (real_std a * real (length a) * real_std b))
            [0..<length a + length b - 1]))"
proof -
  let ?a = "map (\<lambda>x. (x - real_mean a) / (real_std a * real (length a))) a"
  let ?b = "map (\<lambda>x. (x - real_mean b) / real_std b) b"
  have ne: "?a \<noteq> []" "?b \<noteq> []" using assms(1,2) by simp_all
  have sc: "lag_sum ?a ?b =
      (\<lambda>j. lag_sum (map (\<lambda>x. x - real_mean a) a) (map (\<lambda>x. x - real_mean b) b) j
             / (real_std a * real (length a) * real_std b))"
    by (intro ext) (rule lag_sum_scale)
  show ?thesis
    unfolding normalize_a_finite [OF assms(1,3)] normalize_b_finite [OF assms(2,4)]
      np_correlate_full_Fin [OF ne] length_map sc ..
qed

lemma norm_xcorr_finite:
  assumes "length a = length b" and "a \<noteq> []" and "real_std a \<noteq> 0" and "real_std b \<noteq> 0"
    and "1 \<le> L"
  shows "\<exists>v. norm_xcorr (map Fin a) (map Fin b) L = Inr (Fin v)"
proof -
  have b: "b \<noteq> []" using assms(1,2) by auto
  let ?e = "map (\<lambda>j. lag_sum (map (\<lambda>x. x - real_mean a) a) (map (\<lambda>x. x - real_mean b) b) j
                          / (real_std a * real (length a) * real_std b))
            [0..<length a + length b - 1]"
  let ?cut = "py_slice ?e (int (length a) - 1 - L) (int (length a) - 1 + L)"
  have "length ?e = 2 * length a - 1" using assms(1) by simp
  then have ne: "?cut \<noteq> []"
    using assms(2,5) by (intro lag_slice) (auto simp: Suc_le_eq)
  have "norm_xcorr (map Fin a) (map Fin b) L = np_max (map Fin ?cut)"
    unfolding norm_xcorr_def Let_def xcorr_finite [OF assms(2) b assms(3,4)]
    by (simp add: py_slice_map del: upt_Suc)
  then show ?thesis
    using np_max_Fin [OF ne] by simp
qed


section \<open>The normalization of the two operands\<close>



section \<open>Positive affine rescaling in exact arithmetic\<close>

text \<open>
  With exact arithmetic the normalized sequences of \<open>c*a + p\<close> and of \<open>a\<close> are the same
  for \<open>c > 0\<close>, and so are the results of \<open>norm_xcorr\<close>. This is a fact about the exact
  operations only: the \<^verbatim>\<open>float64\<close> results of the two calls are rounded separately and
  may differ in the last digits, and the squares that \<^verbatim>\<open>np.std\<close> takes may overflow
  or underflow on the rescaled operand. Nothing is stated here about the rounded
  results.
\<close>

lemma sum_list_affine: "(\<Sum>x\<leftarrow>xs. c * x + p) = c * sum_list xs + p * real (length xs)"
  by (induction xs) (simp_all add: algebra_simps)

lemma real_mean_affine:
  "xs \<noteq> [] \<Longrightarrow> real_mean (map (\<lambda>x. c * x + p) xs) = c * real_mean xs + p"
  by (simp add: real_mean_def sum_list_affine comp_def add_divide_distrib)

lemma real_mean_scale: "real_mean (map (\<lambda>x. c * f x) xs) = c * real_mean (map f xs)"
  by (simp add: real_mean_def sum_list_const_mult comp_def)

lemma real_std_affine:
  assumes "xs \<noteq> []" and "0 < c"
  shows "real_std (map (\<lambda>x. c * x + p) xs) = c * real_std xs"
proof -
  let ?m = "real_mean xs"
  have "map (\<lambda>x. (x - (c * ?m + p)) * (x - (c * ?m + p))) (map (\<lambda>x. c * x + p) xs)
      = map (\<lambda>x. (c * c) * ((x - ?m) * (x - ?m))) xs"
    by (simp add: algebra_simps)
  then have "real_std (map (\<lambda>x. c * x + p) xs)
      = sqrt ((c * c) * real_mean (map (\<lambda>x. (x - ?m) * (x - ?m)) xs))"
    unfolding real_std_def real_mean_affine [OF assms(1)]
    by (simp only: real_mean_scale)
  also have "\<dots> = c * real_std xs"
    using assms(2) by (simp add: real_sqrt_mult real_std_def)
  finally show ?thesis .
qed

lemma np_div_scale:
  assumes "0 < c" and "0 \<le> s"
  shows "np_div (Fin (c * y)) (Fin (c * s)) = np_div (Fin y) (Fin s)"
  using assms by (auto simp: zero_less_mult_iff)

lemma real_std_nonneg: "0 \<le> real_std xs"
  unfolding real_std_def using sq_mean_nonneg by simp

lemma normalize_a_affine:
  assumes "0 < c"
  shows "normalize_a (map Fin (map (\<lambda>x. c * x + p) xs)) = normalize_a (map Fin xs)"
proof (cases "xs = []")
  case True
  then show ?thesis by (simp add: normalize_a_def)
next
  case False
  let ?ys = "map (\<lambda>x. c * x + p) xs"
  have eq: "np_div (Fin (c * x + p - (c * real_mean xs + p))) (Fin (c * real_std xs * real (length xs)))
      = np_div (Fin (x - real_mean xs)) (Fin (real_std xs * real (length xs)))" for x
  proof -
    have e: "c * x + p - (c * real_mean xs + p) = c * (x - real_mean xs)"
      "c * real_std xs * real (length xs) = c * (real_std xs * real (length xs))"
      by (simp_all add: algebra_simps)
    have "0 \<le> real_std xs * real (length xs)"
      using real_std_nonneg [of xs] by simp
    then show ?thesis
      unfolding e by (rule np_div_scale [OF assms])
  qed
  have "?ys \<noteq> []" using False by simp
  then have "normalize_a (map Fin ?ys) =
      map (\<lambda>y. np_div (Fin (y - real_mean ?ys)) (Fin (real_std ?ys * real (length ?ys)))) ?ys"
    by (rule normalize_a_Fin)
  also have "\<dots> = map (\<lambda>x. np_div (Fin (c * x + p - (c * real_mean xs + p)))
                              (Fin (c * real_std xs * real (length xs)))) xs"
    unfolding real_mean_affine [OF False] real_std_affine [OF False assms]
    by (simp add: comp_def del: np_div.simps)
  also have "\<dots> = map (\<lambda>x. np_div (Fin (x - real_mean xs)) (Fin (real_std xs * real (length xs)))) xs"
    unfolding eq ..
  also have "\<dots> = normalize_a (map Fin xs)"
    using False by (rule normalize_a_Fin [symmetric])
  finally show ?thesis .
qed

lemma normalize_b_affine:
  assumes "0 < c"
  shows "normalize_b (map Fin (map (\<lambda>x. c * x + p) xs)) = normalize_b (map Fin xs)"
proof (cases "xs = []")
  case True
  then show ?thesis by (simp add: normalize_b_def)
next
  case False
  let ?ys = "map (\<lambda>x. c * x + p) xs"
  have eq: "np_div (Fin (c * x + p - (c * real_mean xs + p))) (Fin (c * real_std xs))
      = np_div (Fin (x - real_mean xs)) (Fin (real_std xs))" for x
  proof -
    have e: "c * x + p - (c * real_mean xs + p) = c * (x - real_mean xs)"
      by (simp add: algebra_simps)
    show ?thesis
      unfolding e by (rule np_div_scale [OF assms real_std_nonneg])
  qed
  have "?ys \<noteq> []" using False by simp
  then have "normalize_b (map Fin ?ys) =
      map (\<lambda>y. np_div (Fin (y - real_mean ?ys)) (Fin (real_std ?ys))) ?ys"
    by (rule normalize_b_Fin)
  also have "\<dots> = map (\<lambda>x. np_div (Fin (c * x + p - (c * real_mean xs + p)))
                              (Fin (c * real_std xs))) xs"
    unfolding real_mean_affine [OF False] real_std_affine [OF False assms]
    by (simp add: comp_def del: np_div.simps)
  also have "\<dots> = map (\<lambda>x. np_div (Fin (x - real_mean xs)) (Fin (real_std xs))) xs"
    unfolding eq ..
  also have "\<dots> = normalize_b (map Fin xs)"
    using False by (rule normalize_b_Fin [symmetric])
  finally show ?thesis .
qed

lemma norm_xcorr_affine:
  assumes "0 < c" and "0 < d"
  shows "norm_xcorr (map Fin (map (\<lambda>x. c * x + p) a)) (map Fin (map (\<lambda>x. d * x + q) b)) L
       = norm_xcorr (map Fin a) (map Fin b) L"
  unfolding norm_xcorr_def normalize_a_affine [OF assms(1)] normalize_b_affine [OF assms(2)] ..

section \<open>The correlation of a sequence with itself, and the lag window\<close>

lemma lag_sum_as_sum:
  "lag_sum x y j =
     (\<Sum>n \<in> {n. n < length y \<and> length y \<le> n + j + 1 \<and> n + j + 1 - length y < length x}.
        x ! (n + j + 1 - length y) * y ! n)"
proof -
  let ?P = "\<lambda>n. length y \<le> n + j + 1 \<and> n + j + 1 - length y < length x"
  have "distinct (filter ?P [0..<length y])" by simp
  moreover have "set (filter ?P [0..<length y]) = {n. n < length y \<and> ?P n}" by auto
  ultimately show ?thesis
    unfolding lag_sum_def by (simp only: sum_list_distinct_conv_sum_set)
qed

lemma sum_list_squares:
  "sum_list (map (\<lambda>v. f v * f v) xs) = (\<Sum>n < length xs. f (xs ! n) * f (xs ! n))"
proof -
  have "sum_list (map (\<lambda>v. f v * f v) xs) = (\<Sum>n = 0..<length xs. map (\<lambda>v. f v * f v) xs ! n)"
    by (simp add: sum_list_sum_nth)
  also have "\<dots> = (\<Sum>n = 0..<length xs. f (xs ! n) * f (xs ! n))"
    by (rule sum.cong) simp_all
  finally show ?thesis by (simp add: atLeast0LessThan)
qed

lemma lag_sum_self_le: "lag_sum y y j \<le> (\<Sum>n < length y. y ! n * y ! n)"
proof -
  let ?N = "length y"
  let ?V = "{n. n < ?N \<and> ?N \<le> n + j + 1 \<and> n + j + 1 - ?N < ?N}"
  let ?sh = "\<lambda>n. n + j + 1 - ?N"
  let ?S = "\<Sum>n < ?N. y ! n * y ! n"
  have fin: "finite ?V" by simp
  have prod: "y ! ?sh n * y ! n \<le> (y ! ?sh n * y ! ?sh n + y ! n * y ! n) / 2" for n
    using sum_squares_bound [of "y ! ?sh n" "y ! n"] by (simp add: power2_eq_square)
  have a: "(\<Sum>n \<in> ?V. y ! n * y ! n) \<le> ?S"
    by (rule sum_mono2) auto
  have inj: "inj_on ?sh ?V"
    by (rule inj_onI) auto
  have "(\<Sum>n \<in> ?V. y ! ?sh n * y ! ?sh n) = (\<Sum>m \<in> ?sh ` ?V. y ! m * y ! m)"
    using sum.reindex [OF inj, of "\<lambda>m. y ! m * y ! m"] by (simp add: comp_def)
  also have "\<dots> \<le> ?S"
    by (rule sum_mono2) auto
  finally have b: "(\<Sum>n \<in> ?V. y ! ?sh n * y ! ?sh n) \<le> ?S" .
  have "lag_sum y y j = (\<Sum>n \<in> ?V. y ! ?sh n * y ! n)"
    by (rule lag_sum_as_sum)
  also have "\<dots> \<le> (\<Sum>n \<in> ?V. (y ! ?sh n * y ! ?sh n + y ! n * y ! n) / 2)"
    by (rule sum_mono) (rule prod)
  also have "\<dots> = ((\<Sum>n \<in> ?V. y ! ?sh n * y ! ?sh n) + (\<Sum>n \<in> ?V. y ! n * y ! n)) / 2"
    by (simp add: sum_divide_distrib [symmetric] sum.distrib)
  also have "\<dots> \<le> ?S"
    using a b by simp
  finally show ?thesis .
qed

lemma lag_sum_self_zero_lag:
  assumes "y \<noteq> []"
  shows "lag_sum y y (length y - 1) = (\<Sum>n < length y. y ! n * y ! n)"
proof -
  have "{n. n < length y \<and> length y \<le> n + (length y - 1) + 1 \<and>
            n + (length y - 1) + 1 - length y < length y} = {..<length y}"
    using assms by auto
  then have "lag_sum y y (length y - 1) =
      (\<Sum>n < length y. y ! (n + (length y - 1) + 1 - length y) * y ! n)"
    unfolding lag_sum_as_sum by simp
  also have "\<dots> = (\<Sum>n < length y. y ! n * y ! n)"
    using assms by (intro sum.cong) simp_all
  finally show ?thesis .
qed

lemma std_squared:
  assumes "a \<noteq> []"
  shows "real_std a * real (length a) * real_std a =
           sum_list (map (\<lambda>x. (x - real_mean a) * (x - real_mean a)) a)"
proof -
  let ?q = "real_mean (map (\<lambda>x. (x - real_mean a) * (x - real_mean a)) a)"
  have "real_std a * real_std a = ?q"
    unfolding real_std_def using sq_mean_nonneg [of "real_mean a" a] by simp
  then have "real_std a * real (length a) * real_std a = ?q * real (length a)"
    by (simp add: mult.commute mult.left_commute)
  also have "\<dots> = sum_list (map (\<lambda>x. (x - real_mean a) * (x - real_mean a)) a)"
    using assms by (simp add: real_mean_def)
  finally show ?thesis .
qed

lemma lag_window:
  assumes "length e = 2 * N - 1" and "1 \<le> L" and "L < int N"
  shows "py_slice e (int N - 1 - L) (int N - 1 + L) = take (2 * nat L) (drop (N - 1 - nat L) e)"
proof -
  have "slice_bound (int (length e)) (int N - 1 - L) = N - 1 - nat L"
    using assms by (simp add: slice_bound_def) linarith?
  moreover have "slice_bound (int (length e)) (int N - 1 + L) = N - 1 + nat L"
    using assms by (simp add: slice_bound_def) linarith?
  moreover have "N - 1 + nat L - (N - 1 - nat L) = 2 * nat L"
    using assms by linarith
  ultimately show ?thesis
    by (simp add: py_slice_def Let_def)
qed


text \<open>
  Where the lag window holds the zeroth lag: for a sequence of non-zero variance and
  \<open>1 \<le> max_lag < len(a)\<close> the normalized cross-correlation of \<open>a\<close> with itself is
  exactly \<open>1\<close> (the zeroth lag gives 1 and no lag gives more), as for 100 samples with
  \<open>max_lag = 10\<close>.
\<close>

theorem norm_xcorr_self_is_one:
  assumes std: "np_std (map Fin a) \<noteq> Fin 0" and L: "1 \<le> max_lag" "max_lag < int (length a)"
  shows "norm_xcorr (map Fin a) (map Fin a) max_lag = Inr (Fin 1)"
proof -
  let ?N = "length a"
  let ?y = "map (\<lambda>x. x - real_mean a) a"
  let ?S = "real_std a * real ?N * real_std a"
  let ?e = "map (\<lambda>j. lag_sum ?y ?y j / ?S) [0..<?N + ?N - 1]"
  let ?cut = "py_slice ?e (int ?N - 1 - max_lag) (int ?N - 1 + max_lag)"
  have ne: "a \<noteq> []" using L by auto
  then have s: "real_std a \<noteq> 0" using std by (simp add: np_std_Fin)
  have S: "?S = (\<Sum>n < length ?y. ?y ! n * ?y ! n)"
    unfolding std_squared [OF ne] sum_list_squares [of "\<lambda>x. x - real_mean a"]
    by (intro sum.cong) simp_all
  have pos: "0 < ?S"
    using s real_std_nonneg [of a] ne by simp
  have le: "lag_sum ?y ?y j / ?S \<le> 1" for j
    using lag_sum_self_le [of ?y j] pos unfolding S [symmetric] by simp
  have one: "lag_sum ?y ?y (?N - 1) / ?S = 1"
    using lag_sum_self_zero_lag [of ?y] ne pos s unfolding S [symmetric] by simp
  have len: "length ?e = 2 * ?N - 1" by simp
  have cut: "?cut = take (2 * nat max_lag) (drop (?N - 1 - nat max_lag) ?e)"
    using len L by (rule lag_window)
  have "nat max_lag < length ?cut"
    unfolding cut using L by simp linarith?
  moreover have "?cut ! nat max_lag = 1"
  proof -
    have "?cut ! nat max_lag = ?e ! (?N - 1 - nat max_lag + nat max_lag)"
      unfolding cut using L by (subst nth_take) (simp_all, linarith?)
    also have "?N - 1 - nat max_lag + nat max_lag = ?N - 1"
      using L by linarith
    also have "?e ! (?N - 1) = lag_sum ?y ?y (?N - 1) / ?S"
    proof -
      have "?N - 1 < ?N + ?N - 1" using ne by (cases a) simp_all
      then show ?thesis by simp
    qed
    finally have "?cut ! nat max_lag = lag_sum ?y ?y (?N - 1) / ?S" .
    then show ?thesis unfolding one .
  qed
  ultimately have in_cut: "1 \<in> set ?cut"
    by (metis nth_mem)
  have "\<forall>v \<in> set ?cut. v \<le> 1"
  proof
    fix v assume "v \<in> set ?cut"
    then have "v \<in> set ?e" using set_py_slice by (rule rev_subsetD)
    then show "v \<le> 1" using le by auto
  qed
  then have "Max (set ?cut) = 1"
    using in_cut by (intro Max_eqI) auto
  moreover have "?cut \<noteq> []" using in_cut by auto
  ultimately have "np_max (map Fin ?cut) = Inr (Fin 1)"
    by (simp add: np_max_Fin)
  moreover have "norm_xcorr (map Fin a) (map Fin a) max_lag = np_max (map Fin ?cut)"
    unfolding norm_xcorr_def Let_def xcorr_finite [OF ne ne s s]
    by (simp add: py_slice_map del: upt_Suc)
  ultimately show ?thesis by simp
qed


theorem norm_xcorr_self_is_one_witness:
  "norm_xcorr (map Fin [1, -1, 1, -1]) (map Fin [1, -1, 1, -1]) 1 = Inr (Fin 1)"
proof -
  have "np_std (map Fin [1, -1, 1, -1]) \<noteq> Fin 0" "1 \<le> (1::int)" "(1::int) < int (length [1, -1, 1, -1 :: real])"
    by (simp_all add: np_std_def np_mean_def np_sum_def np_sub_def)
  then show ?thesis by (rule norm_xcorr_self_is_one)
qed

text \<open>
  What the lag window of \<open>norm_xcorr\<close> is: for equal-length sequences of
  non-zero variance and \<open>1 \<le> max_lag < len(a)\<close> the result is the maximum of the
  normalized correlation over the entries \<open>len(a) - 1 - max_lag .. len(a) - 2 + max_lag\<close>,
  that is over the lags \<open>-max_lag .. max_lag - 1\<close>.
\<close>

theorem norm_xcorr_lag_range:
  assumes len: "length a = length b"
    and std: "np_std (map Fin a) \<noteq> Fin 0" "np_std (map Fin b) \<noteq> Fin 0"
    and L: "1 \<le> max_lag" "max_lag < int (length a)"
  shows "norm_xcorr (map Fin a) (map Fin b) max_lag =
     Inr (Fin (Max ((\<lambda>j. lag_sum (map (\<lambda>x. x - real_mean a) a) (map (\<lambda>x. x - real_mean b) b) j
                            / (real_std a * real (length a) * real_std b))
                    ` {length a - 1 - nat max_lag ..< length a - 1 + nat max_lag})))"
proof -
  let ?N = "length a"
  let ?g = "\<lambda>j. lag_sum (map (\<lambda>x. x - real_mean a) a) (map (\<lambda>x. x - real_mean b) b) j
                  / (real_std a * real ?N * real_std b)"
  let ?e = "map ?g [0..<?N + length b - 1]"
  let ?cut = "py_slice ?e (int ?N - 1 - max_lag) (int ?N - 1 + max_lag)"
  have ne: "a \<noteq> []" using L by auto
  then have neb: "b \<noteq> []" using len by auto
  have s: "real_std a \<noteq> 0" "real_std b \<noteq> 0"
    using std ne neb by (simp_all add: np_std_Fin)
  have "length ?e = 2 * ?N - 1" using len by simp
  then have "?cut = take (2 * nat max_lag) (drop (?N - 1 - nat max_lag) ?e)"
    using L by (rule lag_window)
  also have "\<dots> = map ?g (take (2 * nat max_lag) [?N - 1 - nat max_lag..<?N + length b - 1])"
    by (simp only: drop_map take_map drop_upt) simp
  also have "take (2 * nat max_lag) [?N - 1 - nat max_lag..<?N + length b - 1]
      = [?N - 1 - nat max_lag..<?N - 1 - nat max_lag + 2 * nat max_lag]"
    using L len by (intro take_upt) linarith
  also have "?N - 1 - nat max_lag + 2 * nat max_lag = ?N - 1 + nat max_lag"
    using L by linarith
  finally have cut: "?cut = map ?g [?N - 1 - nat max_lag..<?N - 1 + nat max_lag]" .
  have "?cut \<noteq> []" unfolding cut using L by simp
  then have "np_max (map Fin ?cut) = Inr (Fin (Max (set ?cut)))"
    by (rule np_max_Fin)
  also have "set ?cut = ?g ` {?N - 1 - nat max_lag..<?N - 1 + nat max_lag}"
    unfolding cut by simp
  finally have "np_max (map Fin ?cut) =
      Inr (Fin (Max (?g ` {?N - 1 - nat max_lag..<?N - 1 + nat max_lag})))" .
  moreover have "norm_xcorr (map Fin a) (map Fin b) max_lag = np_max (map Fin ?cut)"
    unfolding norm_xcorr_def Let_def xcorr_finite [OF ne neb s]
    by (simp add: py_slice_map del: upt_Suc)
  ultimately show ?thesis by simp
qed

theorem norm_xcorr_lag_range_witness:
  "norm_xcorr (map Fin [1, 1, -1, -1]) (map Fin [1, -1, -1, 1]) 1 =
     Inr (Fin 0)"
proof -
  have h: "length [1, 1, -1, -1 :: real] = length [1, -1, -1, 1 :: real]"
    "np_std (map Fin [1, 1, -1, -1]) \<noteq> Fin 0" "np_std (map Fin [1, -1, -1, 1]) \<noteq> Fin 0"
    "1 \<le> (1::int)" "(1::int) < int (length [1, 1, -1, -1 :: real])"
    by (simp_all add: np_std_def np_mean_def np_sum_def np_sub_def)
  have m: "real_mean [1, 1, -1, -1] = 0" "real_mean [1, -1, -1, 1] = 0"
    by (simp_all add: real_mean_def)
  have sd: "real_std [1, 1, -1, -1] = 1" "real_std [1, -1, -1, 1] = 1"
    by (simp_all add: real_std_def real_mean_def)
  have "{length [1, 1, -1, -1 :: real] - 1 - nat 1 ..< length [1, 1, -1, -1 :: real] - 1 + nat 1}
      = {2, 3}"
    by auto
  with norm_xcorr_lag_range [OF h, unfolded m sd] show ?thesis
    by (simp add: lag_sum_def upt_rec)
qed

section \<open>The number of windows, and windows too short to step\<close>

lemma ceil_div_cases:
  assumes "1 \<le> (s::int)" and "0 \<le> b"
  shows "(b + s - 1) div s = (if s dvd b then b div s else b div s + 1)"
proof (cases "s dvd b")
  case True
  then obtain k where k: "b = s * k" by (auto simp: dvd_def)
  have "(s * k + (s - 1)) div s = k + (s - 1) div s"
    using assms(1) by simp
  moreover have "(s - 1) div s = 0" using assms(1) by simp
  ultimately show ?thesis using True k assms(1) by (simp add: algebra_simps)
next
  case False
  define r where "r = b mod s"
  have "0 \<le> b mod s" "b mod s < s" using assms(1) by simp_all
  moreover have "b mod s \<noteq> 0" using False by (simp add: dvd_eq_mod_eq_0)
  ultimately have r: "1 \<le> r" "r < s"
    unfolding r_def by linarith+
  have "b = s * (b div s) + r" unfolding r_def by simp
  then have "b + s - 1 = s * (b div s + 1) + (r - 1)" by (simp add: algebra_simps)
  then have "(b + s - 1) div s = (s * (b div s + 1) + (r - 1)) div s" by (simp only:)
  also have "\<dots> = b div s + 1 + (r - 1) div s"
    using assms(1) by simp
  also have "(r - 1) div s = 0" using r by simp
  finally show ?thesis using False by simp
qed

text \<open>
  What the loop's count is: for a window of \<open>4 \<le> nsamp_win \<le> nsamp\<close>
  samples and \<open>max_lag \<ge> 1\<close> the trace has \<open>(nsamp - nsamp_win) div step\<close> entries when the
  step \<^verbatim>\<open>int(nsamp_win/4)\<close> divides \<open>nsamp - nsamp_win\<close>, and one more otherwise.
\<close>

theorem similarity_trace_length:
  assumes "4 \<le> nsamp_win" and "1 \<le> i_max"
    and "length d0 = nsamp" and "length d1 = nsamp" and "length d2 = nsamp"
    and "nsamp_win \<le> int nsamp"
  shows "\<exists>C L. similarity_trace (d0, d1, d2) nsamp nsamp_win i_max = Some (Inr (C, L)) \<and>
           length L = length C \<and>
           int (length C) =
             (if int_quot nsamp_win 4 dvd int nsamp - nsamp_win
              then (int nsamp - nsamp_win) div int_quot nsamp_win 4
              else (int nsamp - nsamp_win) div int_quot nsamp_win 4 + 1)"
proof -
  let ?s = "int_quot nsamp_win 4" and ?b = "int nsamp - nsamp_win"
  have s: "1 \<le> ?s" using assms(1) by (rule int_quot_pos)
  have b: "0 \<le> ?b" using assms(6) by simp
  obtain C where run: "similarity_trace (d0, d1, d2) nsamp nsamp_win i_max =
           Some (Inr (C, map (\<lambda>m. int m * ?s + int_quot nsamp_win 2) [0..<nat ((?b + ?s - 1) div ?s)]))"
    and n: "length C = nat ((?b + ?s - 1) div ?s)"
    using similarity_trace_returns [OF assms(1-5)] by blast
  have "0 \<le> (?b + ?s - 1) div ?s"
    using s b by (simp add: pos_imp_zdiv_nonneg_iff)
  then have "int (length C) = (?b + ?s - 1) div ?s" using n by simp
  also have "\<dots> = (if ?s dvd ?b then ?b div ?s else ?b div ?s + 1)"
    using s b by (rule ceil_div_cases)
  finally show ?thesis using run n by simp
qed

theorem similarity_trace_length_witness:
  "\<exists>C L. similarity_trace (replicate 9 (Fin 0), replicate 9 (Fin 0), replicate 9 (Fin 0)) 9 4 1
            = Some (Inr (C, L)) \<and> length L = length C \<and> int (length C) = 5"
proof -
  have h: "4 \<le> (4::int)" "1 \<le> (1::int)" "length (replicate 9 (Fin 0)) = 9" "(4::int) \<le> int 9"
    by simp_all
  have q: "int_quot 4 4 = 1" by (simp add: int_quot_def)
  from similarity_trace_length [OF h(1,2,3,3,3,4)] show ?thesis unfolding q by simp
qed


lemma similarity_loop_stuck:
  assumes call: "similarity_loop (d0, d1, d2) nsamp nsamp_win i_max l C L = Some y"
    and step: "int_quot nsamp_win 4 = 0" and more: "l < nsamp - nsamp_win"
    and c1: "norm_xcorr (py_slice d0 l (l + nsamp_win)) (py_slice d1 l (l + nsamp_win)) i_max = Inr c1"
    and c2: "norm_xcorr (py_slice d0 l (l + nsamp_win)) (py_slice d2 l (l + nsamp_win)) i_max = Inr c2"
  shows False
proof -
  let ?P = "\<lambda>data nsamp nsamp_win i_max l (C :: npfloat list) (L :: int list)
              (y :: error + npfloat list \<times> int list).
     \<forall>d0 d1 d2 c1 c2. data = (d0, d1, d2) \<longrightarrow> int_quot nsamp_win 4 = 0 \<longrightarrow> l < nsamp - nsamp_win \<longrightarrow>
       norm_xcorr (py_slice d0 l (l + nsamp_win)) (py_slice d1 l (l + nsamp_win)) i_max = Inr c1 \<longrightarrow>
       norm_xcorr (py_slice d0 l (l + nsamp_win)) (py_slice d2 l (l + nsamp_win)) i_max = Inr c2 \<longrightarrow>
       False"
  have "?P (d0, d1, d2) nsamp nsamp_win i_max l C L y"
  proof (rule similarity_loop.raw_induct [where P = ?P, OF _ call], intro allI impI)
    fix f data nsamp nsamp_win i_max l C L y d0 d1 d2 c1 c2
    assume IH: "\<And>data nsamp nsamp_win i_max l C L y.
        f data nsamp nsamp_win i_max l C L = Some y \<Longrightarrow>
        \<forall>d0 d1 d2 c1 c2. data = (d0, d1, d2) \<longrightarrow> int_quot nsamp_win 4 = 0 \<longrightarrow> l < nsamp - nsamp_win \<longrightarrow>
          norm_xcorr (py_slice d0 l (l + nsamp_win)) (py_slice d1 l (l + nsamp_win)) i_max = Inr c1 \<longrightarrow>
          norm_xcorr (py_slice d0 l (l + nsamp_win)) (py_slice d2 l (l + nsamp_win)) i_max = Inr c2 \<longrightarrow>
          False"
      and body: "(if l < nsamp - nsamp_win then
          (case data of (d0, d1, d2) \<Rightarrow>
            (case norm_xcorr (py_slice d0 l (l + nsamp_win)) (py_slice d1 l (l + nsamp_win)) i_max of
               Inl e \<Rightarrow> Some (Inl e)
             | Inr c1 \<Rightarrow>
                (case norm_xcorr (py_slice d0 l (l + nsamp_win)) (py_slice d2 l (l + nsamp_win)) i_max of
                   Inl e \<Rightarrow> Some (Inl e)
                 | Inr c2 \<Rightarrow>
                     f data nsamp nsamp_win i_max (l + int_quot nsamp_win 4)
                       (C @ [np_div (np_add c1 c2) (Fin 2)])
                       (L @ [l + int_quot nsamp_win 2]))))
        else Some (Inr (C, L))) = Some y"
      and pre: "data = (d0, d1, d2)" "int_quot nsamp_win 4 = 0" "l < nsamp - nsamp_win"
        "norm_xcorr (py_slice d0 l (l + nsamp_win)) (py_slice d1 l (l + nsamp_win)) i_max = Inr c1"
        "norm_xcorr (py_slice d0 l (l + nsamp_win)) (py_slice d2 l (l + nsamp_win)) i_max = Inr c2"
    from body pre have "f data nsamp nsamp_win i_max l
        (C @ [np_div (np_add c1 c2) (Fin 2)]) (L @ [l + int_quot nsamp_win 2]) = Some y"
      by simp
    from IH [OF this] pre show False by blast
  qed
  then show False using step more c1 c2 by blast
qed

text \<open>
  For a window of 1 to 3 samples the step \<^verbatim>\<open>int(nsamp_win/4)\<close> is 0: when the record is
  longer than the window and \<open>max_lag \<ge> 1\<close> nothing is raised and the loop never ends.
\<close>

theorem similarity_trace_short_window_diverges:
  assumes "1 \<le> nsamp_win" and "nsamp_win < 4" and "1 \<le> i_max"
    and "length d0 = nsamp" and "length d1 = nsamp" and "length d2 = nsamp"
    and "nsamp_win < int nsamp"
  shows "similarity_trace (d0, d1, d2) nsamp nsamp_win i_max = None"
proof (rule ccontr)
  assume "similarity_trace (d0, d1, d2) nsamp nsamp_win i_max \<noteq> None"
  then obtain y where y: "similarity_loop (d0, d1, d2) (int nsamp) nsamp_win i_max 0 [] [] = Some y"
    by (auto simp: similarity_trace_def)
  have q: "int_quot nsamp_win 4 = 0"
    using assms(1,2) by (simp add: int_quot_def)
  let ?w0 = "py_slice d0 0 (0 + nsamp_win)"
  let ?w1 = "py_slice d1 0 (0 + nsamp_win)"
  let ?w2 = "py_slice d2 0 (0 + nsamp_win)"
  have len: "length ?w0 = nat nsamp_win" "length ?w1 = nat nsamp_win" "length ?w2 = nat nsamp_win"
    using assms window_length [of 0 d0 nsamp_win] window_length [of 0 d1 nsamp_win]
      window_length [of 0 d2 nsamp_win]
    by simp_all
  have ne: "?w0 \<noteq> []" using len(1) assms(1) by auto
  obtain c1 where c1: "norm_xcorr ?w0 ?w1 i_max = Inr c1"
    using norm_xcorr_returns [of ?w0 ?w1 i_max] len ne assms(3) by auto
  obtain c2 where c2: "norm_xcorr ?w0 ?w2 i_max = Inr c2"
    using norm_xcorr_returns [of ?w0 ?w2 i_max] len ne assms(3) by auto
  have "(0::int) < int nsamp - nsamp_win" using assms(7) by simp
  from similarity_loop_stuck [OF y q this c1 c2] show False .
qed

theorem similarity_trace_short_window_diverges_witness:
  "similarity_trace (replicate 5 (Fin 0), replicate 5 (Fin 0), replicate 5 (Fin 0)) 5 3 1 = None"
proof -
  have "1 \<le> (3::int)" "(3::int) < 4" "1 \<le> (1::int)" "length (replicate 5 (Fin 0)) = 5" "(3::int) < int 5"
    by simp_all
  from similarity_trace_short_window_diverges [OF this(1,2,3,4,4,4,5)] show ?thesis .
qed

section \<open>Rounding to the nearest \<^verbatim>\<open>float64\<close>\<close>

lemma rne_le: "z \<le> of_int K \<Longrightarrow> rne z \<le> K"
proof -
  assume z: "z \<le> of_int K"
  show ?thesis
  proof (cases "z = of_int K")
    case True
    then show ?thesis by (simp add: rne_def)
  next
    case False
    then have "z < of_int K" using z by simp
    then have "\<lfloor>z\<rfloor> < K" by (simp add: floor_less_iff)
    then show ?thesis by (auto simp: rne_def Let_def)
  qed
qed

lemma rne_ge: "of_int K \<le> z \<Longrightarrow> K \<le> rne z"
proof -
  assume "of_int K \<le> z"
  then have "K \<le> \<lfloor>z\<rfloor>" by (simp add: le_floor_iff)
  then show ?thesis by (auto simp: rne_def Let_def)
qed

lemma rne_eval: "\<bar>z - of_int k\<bar> < 1 / 2 \<Longrightarrow> rne z = k"
proof -
  assume a: "\<bar>z - of_int k\<bar> < 1 / 2"
  show ?thesis
  proof (cases "of_int k \<le> z")
    case True
    then have "\<lfloor>z\<rfloor> = k" using a by (intro floor_unique) linarith+
    then show ?thesis using a True by (simp add: rne_def Let_def)
  next
    case False
    then have "\<lfloor>z\<rfloor> = k - 1" using a by (intro floor_unique) (simp, linarith)+
    then show ?thesis using a False by (simp add: rne_def Let_def)
  qed
qed

lemma powi2_le_imp_le:
  assumes "(2::real) powi e \<le> 2 powi k"
  shows "e \<le> k"
proof (rule ccontr)
  assume "\<not> e \<le> k"
  then have "k < e" by simp
  then have "(2::real) powi k < 2 powi e"
    by (intro power_int_strict_increasing) simp_all
  with assms show False by simp
qed

lemma floor_log2_iff:
  assumes "0 < r"
  shows "\<lfloor>log 2 r\<rfloor> = e \<longleftrightarrow> 2 powi e \<le> r \<and> r < 2 powi (e + 1)"
proof -
  have p: "2 powr real_of_int e = (2::real) powi e"
    "2 powr real_of_int (e + 1) = (2::real) powi (e + 1)"
    by (rule powr_real_of_int'; simp)+
  have "(\<lfloor>log 2 r\<rfloor> = e) = (2 powr real_of_int e \<le> r \<and> r < 2 powr real_of_int (e + 1))"
    using assms by (intro floor_log_eq_powr_iff) simp_all
  then show ?thesis unfolding p .
qed

lemma floor_log2_le:
  assumes "0 < r" and "r \<le> 2 powi k"
  shows "\<lfloor>log 2 r\<rfloor> \<le> k"
proof -
  have "2 powi \<lfloor>log 2 r\<rfloor> \<le> r"
    using floor_log2_iff [OF assms(1), of "\<lfloor>log 2 r\<rfloor>"] by simp
  then have "(2::real) powi \<lfloor>log 2 r\<rfloor> \<le> 2 powi k"
    using assms(2) by simp
  then show ?thesis by (rule powi2_le_imp_le)
qed

lemma floor_log2_eq:
  assumes "2 powi e \<le> r" and "r < 2 powi (e + 1)"
  shows "\<lfloor>log 2 r\<rfloor> = e"
proof -
  have "(0::real) < 2 powi e" by simp
  then have "0 < r" using assms(1) by linarith
  then show ?thesis
    using floor_log2_iff [of r e] assms by simp
qed

lemma f64_exponent_le:
  assumes "0 < r" and "r \<le> 2 powi k" and "- 1022 \<le> k"
  shows "f64_exponent r \<le> k"
  using floor_log2_le [OF assms(1,2)] assms(1,3) by (simp add: f64_exponent_def)

lemma f64_nearest_nonneg: "0 \<le> r \<Longrightarrow> 0 \<le> f64_nearest r"
proof -
  assume r: "0 \<le> r"
  have "0 \<le> rne (r / 2 powi (f64_exponent r - 52))"
    using r by (intro rne_ge) simp
  then show ?thesis
    by (simp add: f64_nearest_def Let_def)
qed

lemma f64_nearest_le:
  assumes r: "0 < r" and le: "r \<le> of_int n * 2 powi j" and j: "f64_exponent r - 52 \<le> j"
  shows "f64_nearest r \<le> of_int n * 2 powi j"
proof -
  define u :: real where "u = 2 powi (f64_exponent r - 52)"
  have u: "0 < u" unfolding u_def by simp
  have "(2::real) powi j = 2 powi (j - (f64_exponent r - 52)) * u"
    unfolding u_def by (simp add: power_int_add [symmetric])
  also have "(2::real) powi (j - (f64_exponent r - 52)) = 2 ^ nat (j - (f64_exponent r - 52))"
    using j by (simp add: power_int_nonneg_exp)
  finally have B: "of_int n * 2 powi j = of_int (n * 2 ^ nat (j - (f64_exponent r - 52))) * u"
    by simp
  have "r / u \<le> of_int (n * 2 ^ nat (j - (f64_exponent r - 52)))"
    using le u unfolding B by (simp add: pos_divide_le_eq)
  then have "rne (r / u) \<le> n * 2 ^ nat (j - (f64_exponent r - 52))"
    by (rule rne_le)
  then have "of_int (rne (r / u)) \<le> (of_int (n * 2 ^ nat (j - (f64_exponent r - 52))) :: real)"
    by (simp only: of_int_le_iff)
  then have "u * of_int (rne (r / u)) \<le> u * of_int (n * 2 ^ nat (j - (f64_exponent r - 52)))"
    using u by (simp only: mult_le_cancel_left_pos)
  then show ?thesis
    using r unfolding B by (simp add: f64_nearest_def Let_def u_def mult.commute)
qed

lemma f64_nearest_eval:
  assumes "2 powi e \<le> \<bar>r\<bar>" and "\<bar>r\<bar> < 2 powi (e + 1)" and "- 1022 \<le> e"
    and "\<bar>r / 2 powi (e - 52) - of_int k\<bar> < 1 / 2"
  shows "f64_nearest r = 2 powi (e - 52) * of_int k"
proof -
  have "\<lfloor>log 2 \<bar>r\<bar>\<rfloor> = e" using assms(1,2) by (rule floor_log2_eq)
  then have e: "f64_exponent r = e" using assms(3) by (simp add: f64_exponent_def)
  have "(0::real) < 2 powi e" by simp
  then have "0 < \<bar>r\<bar>" using assms(1) by linarith
  then have "r \<noteq> 0" by simp
  then show ?thesis
    using rne_eval [OF assms(4)] by (simp add: f64_nearest_def Let_def e)
qed

lemma f64_round_nonneg:
  assumes "0 \<le> r"
  shows "(\<exists>q. f64_round r = Fin q \<and> 0 \<le> q) \<or> f64_round r = PInf"
proof -
  have "0 \<le> f64_nearest r" using assms by (rule f64_nearest_nonneg)
  then show ?thesis by (simp add: f64_round_def Let_def)
qed

lemma f64_round_bounded:
  assumes "0 \<le> r" and "r \<le> 2 powi 1023"
  shows "\<exists>q. f64_round r = Fin q \<and> 0 \<le> q \<and> q \<le> 2 powi 1023"
proof (cases "r = 0")
  case True
  then show ?thesis by (simp add: f64_round_def f64_nearest_def)
next
  case False
  then have pos: "0 < r" using assms(1) by simp
  have n: "0 \<le> f64_nearest r" using assms(1) by (rule f64_nearest_nonneg)
  have "f64_exponent r \<le> 1023" using pos assms(2) by (intro f64_exponent_le) simp_all
  then have "f64_exponent r - 52 \<le> 1023" by simp
  moreover have "r \<le> of_int 1 * 2 powi 1023" using assms(2) by simp
  ultimately have "f64_nearest r \<le> of_int 1 * 2 powi 1023"
    using pos by (intro f64_nearest_le)
  then have le: "f64_nearest r \<le> 2 powi 1023" by simp
  have "(2::real) powi 1023 < 2 powi 1024" by (rule power_int_strict_increasing) simp_all
  then have "f64_nearest r < 2 ^ 1024" using le by simp
  then show ?thesis using n le by (simp add: f64_round_def Let_def)
qed

lemma f64_div_eval:
  assumes "y \<noteq> 0"
    and "2 powi e \<le> \<bar>x / y\<bar>" and "\<bar>x / y\<bar> < 2 powi (e + 1)" and "- 1022 \<le> e"
    and "\<bar>x / y / 2 powi (e - 52) - of_int k\<bar> < 1 / 2"
    and "e \<le> 1022" and "\<bar>k\<bar> \<le> 2 ^ 53"
  shows "f64_div (Fin x) (Fin y) = Fin (2 powi (e - 52) * of_int k)"
proof -
  let ?v = "2 powi (e - 52) * real_of_int k"
  have n: "f64_nearest (x / y) = ?v"
    using assms(2-5) by (rule f64_nearest_eval)
  have "\<bar>real_of_int k\<bar> \<le> real_of_int (2 ^ 53)" using assms(7) by linarith
  then have k: "\<bar>real_of_int k\<bar> \<le> 2 powi 53" by simp
  have "\<bar>?v\<bar> = 2 powi (e - 52) * \<bar>real_of_int k\<bar>" by (simp add: abs_mult)
  also have "\<dots> \<le> 2 powi (e - 52) * 2 powi 53" using k by (intro mult_left_mono) simp_all
  also have "\<dots> = 2 powi (e - 52 + 53)" by (rule power_int_add [symmetric]) simp
  also have "(2::real) powi (e - 52 + 53) = 2 powi (e + 1)"
    by (rule arg_cong [where f = "\<lambda>n. 2 powi n"]) linarith
  also have "\<dots> < 2 powi 1024" using assms(6) by (intro power_int_strict_increasing) simp_all
  finally have "\<bar>?v\<bar> < 2 ^ 1024" by simp
  then have "?v < 2 ^ 1024" "- (2 ^ 1024) < ?v" by linarith+
  then have "f64_round (x / y) = Fin ?v" unfolding f64_round_def n Let_def by simp
  then show ?thesis using assms(1) by (simp add: f64_div_def)
qed

section \<open>The maximum lag in samples\<close>

text \<open>
  Claim C8: for a non-empty table of finite, non-negative distances and a positive
  sampling interval \<open>delta\<close> the maximum lag is computed as the claim says, every
  division rounding to \<^verbatim>\<open>float64\<close>: \<open>max_dist\<close> is the largest distance over 1000,
  \<open>t_max\<close> is \<open>max_dist\<close> over the minimum velocity 3.5, both finite, and \<open>i_max\<close> is the
  whole number of samples in the quotient of \<open>t_max\<close> by \<open>delta\<close> (\<^verbatim>\<open>int\<close> truncates; the
  quotient is not negative). Only when that last quotient overflows to infinity is
  there no such number: \<^verbatim>\<open>int\<close> raises OverflowError.
\<close>

theorem i_max_of_whole_samples:
  assumes ne: "concat distances \<noteq> []"
    and rng: "\<forall>d \<in> set (concat distances). 0 \<le> d \<and> d < 2 ^ 1024"
    and delta: "0 < delta"
  shows "\<exists>max_dist t_max.
           f64_div (Fin (Max (set (concat distances)))) (Fin 1000) = Fin max_dist \<and>
           f64_div (Fin max_dist) (Fin 3.5) = Fin t_max \<and> 0 \<le> t_max \<and>
           ((\<exists>q. f64_div (Fin t_max) (Fin delta) = Fin q \<and> 0 \<le> q \<and>
                 i_max_of distances delta = Inr \<lfloor>q\<rfloor>) \<or>
            (f64_div (Fin t_max) (Fin delta) = PInf \<and>
             i_max_of distances delta = Inl OverflowError))"
proof -
  define M where "M = Max (set (concat distances))"
  have "Max (set (concat distances)) \<in> set (concat distances)"
    using ne by (intro Max_in) simp_all
  then have "M \<in> set (concat distances)" unfolding M_def .
  then have M: "0 \<le> M" "M < 2 ^ 1024" using rng by blast+
  have "(2::real) ^ 1024 = 2 * 2 powi 1023" by simp
  then have "M / 1000 \<le> 2 powi 1023" using M by simp
  moreover have "0 \<le> M / 1000" using M(1) by simp
  ultimately obtain md where md: "f64_round (M / 1000) = Fin md" "0 \<le> md" "md \<le> 2 powi 1023"
    using f64_round_bounded by blast
  have "md / 3.5 \<le> 2 powi 1023" using md(2,3) by simp
  moreover have "0 \<le> md / 3.5" using md(2) by simp
  ultimately obtain tm where tm: "f64_round (md / 3.5) = Fin tm" "0 \<le> tm"
    using f64_round_bounded by blast
  have d1: "f64_div (Fin M) (Fin 1000) = Fin md" using md(1) by (simp add: f64_div_def)
  have d2: "f64_div (Fin md) (Fin 3.5) = Fin tm" using tm(1) by (simp add: f64_div_def)
  have d3: "f64_div (Fin tm) (Fin delta) = f64_round (tm / delta)"
    using delta by (simp add: f64_div_def)
  have "np_max (map Fin (concat distances)) = Inr (Fin (Max (set (concat distances))))"
    using ne by (rule np_max_Fin)
  then have mx: "np_max (map Fin (concat distances)) = Inr (Fin M)" unfolding M_def .
  have im: "i_max_of distances delta = py_int (f64_round (tm / delta))"
    by (simp only: i_max_of_def mx Let_def sum.case d1 d2 d3)
  have "0 \<le> tm / delta" using tm(2) delta by simp
  from f64_round_nonneg [OF this]
  have "(\<exists>q. f64_div (Fin tm) (Fin delta) = Fin q \<and> 0 \<le> q \<and>
             i_max_of distances delta = Inr \<lfloor>q\<rfloor>) \<or>
        (f64_div (Fin tm) (Fin delta) = PInf \<and>
         i_max_of distances delta = Inl OverflowError)"
  proof
    assume "\<exists>q. f64_round (tm / delta) = Fin q \<and> 0 \<le> q"
    then obtain q where q: "f64_round (tm / delta) = Fin q" "0 \<le> q" by blast
    have "i_max_of distances delta = Inr \<lfloor>q\<rfloor>" using q by (simp add: im py_int_def)
    then show ?thesis using d3 q by auto
  next
    assume p: "f64_round (tm / delta) = PInf"
    then have "i_max_of distances delta = Inl OverflowError" by (simp add: im py_int_def)
    then show ?thesis using d3 p by auto
  qed
  with d1 d2 tm(2) show ?thesis unfolding M_def by blast
qed

text \<open>
  Distances up to 1400 m and the sampling interval \<^verbatim>\<open>0.01\<close> (as a \<^verbatim>\<open>float64\<close>:
  \<open>5764607523034235 / 2^59\<close>): \<open>max_dist\<close> is \<^verbatim>\<open>1.4\<close>, \<open>t_max\<close> is
  \<^verbatim>\<open>0.39999999999999997\<close>, the quotient is \<^verbatim>\<open>39.99999999999999\<close> and \<open>i_max\<close> is 39.
\<close>

lemma i_max_example_max_dist:
  "f64_div (Fin 1400) (Fin 1000) = Fin (6305039478318694 / 2 ^ 52)"
proof -
  have "f64_div (Fin 1400) (Fin 1000) = Fin (2 powi (0 - 52) * of_int 6305039478318694)"
    by (rule f64_div_eval) simp_all
  then show ?thesis by simp
qed

lemma i_max_example_t_max:
  "f64_div (Fin (6305039478318694 / 2 ^ 52)) (Fin 3.5) = Fin (7205759403792793 / 2 ^ 54)"
proof -
  have "f64_div (Fin (6305039478318694 / 2 ^ 52)) (Fin 3.5)
        = Fin (2 powi (- 2 - 52) * of_int 7205759403792793)"
    by (rule f64_div_eval) simp_all
  then show ?thesis by simp
qed

lemma i_max_example_quotient:
  "f64_div (Fin (7205759403792793 / 2 ^ 54)) (Fin (5764607523034235 / 2 ^ 59))
   = Fin (5629499534213119 / 2 ^ 47)"
proof -
  have "f64_div (Fin (7205759403792793 / 2 ^ 54)) (Fin (5764607523034235 / 2 ^ 59))
        = Fin (2 powi (5 - 52) * of_int 5629499534213119)"
    by (rule f64_div_eval) simp_all
  then show ?thesis by simp
qed

theorem i_max_of_whole_samples_witness:
  "i_max_of [[0, 700, 1400]] (5764607523034235 / 2 ^ 59) = Inr 39"
proof -
  have fl: "\<lfloor>5629499534213119 / 2 ^ 47 :: real\<rfloor> = 39"
    by (rule floor_unique) simp_all
  have mx: "Max (set (concat [[0, 700, 1400 :: real]])) = 1400" by simp
  have h: "\<forall>d \<in> set (concat [[0, 700, 1400 :: real]]). 0 \<le> d \<and> d < 2 ^ 1024" by simp
  from i_max_of_whole_samples [of "[[0, 700, 1400]]" "5764607523034235 / 2 ^ 59", OF _ h]
  obtain md tm where a: "f64_div (Fin 1400) (Fin 1000) = Fin md"
    and b: "f64_div (Fin md) (Fin 3.5) = Fin tm"
    and c: "(\<exists>q. f64_div (Fin tm) (Fin (5764607523034235 / 2 ^ 59)) = Fin q \<and> 0 \<le> q \<and>
                 i_max_of [[0, 700, 1400]] (5764607523034235 / 2 ^ 59) = Inr \<lfloor>q\<rfloor>) \<or>
            (f64_div (Fin tm) (Fin (5764607523034235 / 2 ^ 59)) = PInf \<and>
             i_max_of [[0, 700, 1400]] (5764607523034235 / 2 ^ 59) = Inl OverflowError)"
    unfolding mx by auto
  have md: "md = 6305039478318694 / 2 ^ 52" using a unfolding i_max_example_max_dist by simp
  have tm: "tm = 7205759403792793 / 2 ^ 54" using b unfolding md i_max_example_t_max by simp
  from c have "\<exists>q. Fin (5629499534213119 / 2 ^ 47) = Fin q \<and>
                 i_max_of [[0, 700, 1400]] (5764607523034235 / 2 ^ 59) = Inr \<lfloor>q\<rfloor>"
    unfolding tm i_max_example_quotient by blast
  then obtain q :: real where q: "5629499534213119 / 2 ^ 47 = q"
    and r: "i_max_of [[0, 700, 1400]] (5764607523034235 / 2 ^ 59) = Inr \<lfloor>q\<rfloor>"
    unfolding npfloat.inject by blast
  show ?thesis unfolding r q [symmetric] fl ..
qed

section \<open>The backazimuths\<close>

lemma np_mod_nonneg:
  assumes "0 \<le> x"
  shows "np_mod x 360 = Fin (x - 360 * of_int \<lfloor>x / 360\<rfloor>)"
    and "0 \<le> x - 360 * of_int \<lfloor>x / 360\<rfloor>" and "x - 360 * of_int \<lfloor>x / 360\<rfloor> < 360"
proof -
  have lo: "of_int \<lfloor>x / 360\<rfloor> * 360 \<le> x" by (rule floor_divide_lower) simp
  have hi: "x < (of_int \<lfloor>x / 360\<rfloor> + 1) * 360" by (rule floor_divide_upper) simp
  show "0 \<le> x - 360 * of_int \<lfloor>x / 360\<rfloor>" using lo by simp
  then show "np_mod x 360 = Fin (x - 360 * of_int \<lfloor>x / 360\<rfloor>)"
    using assms by (simp add: np_mod_def Let_def)
  show "x - 360 * of_int \<lfloor>x / 360\<rfloor> < 360" using hi by (simp add: algebra_simps)
qed

lemma np_mod_negative:
  assumes "x < 0"
  shows "np_mod x 360 =
     (if x - 360 * of_int \<lceil>x / 360\<rceil> = 0 then Fin 0
      else Fin (f64_nearest (x - 360 * of_int \<lceil>x / 360\<rceil> + 360)))"
    and "- 360 < x - 360 * of_int \<lceil>x / 360\<rceil>" and "x - 360 * of_int \<lceil>x / 360\<rceil> \<le> 0"
proof -
  have a: "x / 360 \<le> of_int \<lceil>x / 360\<rceil>" by (rule le_of_int_ceiling)
  have b: "of_int \<lceil>x / 360\<rceil> - 1 < x / 360" by linarith
  show le: "x - 360 * of_int \<lceil>x / 360\<rceil> \<le> 0" using a by linarith
  show "- 360 < x - 360 * of_int \<lceil>x / 360\<rceil>" using b by linarith
  have "\<not> 0 \<le> x / 360" using assms by simp
  then show "np_mod x 360 =
     (if x - 360 * of_int \<lceil>x / 360\<rceil> = 0 then Fin 0
      else Fin (f64_nearest (x - 360 * of_int \<lceil>x / 360\<rceil> + 360)))"
    using le by (simp add: np_mod_def Let_def)
qed

lemma np_mod_small_negative:
  assumes "- 360 < x" and "x < 0"
  shows "np_mod x 360 = Fin (f64_nearest (x + 360))"
proof -
  have c: "\<lceil>x / 360\<rceil> = 0" using assms by (intro ceiling_unique) simp_all
  show ?thesis using np_mod_negative(1) [OF assms(2)] assms(2) unfolding c by simp
qed

lemma f64_nearest_below_360:
  assumes "0 < t" and "t < 360"
  shows "0 \<le> f64_nearest t" and "f64_nearest t \<le> 360"
proof -
  show "0 \<le> f64_nearest t" using assms(1) by (intro f64_nearest_nonneg) simp
  have "t \<le> 2 powi 9" using assms(2) by simp
  then have "f64_exponent t \<le> 9" using assms(1) by (intro f64_exponent_le) simp_all
  then have "f64_exponent t - 52 \<le> 3" by simp
  moreover have "t \<le> of_int 45 * 2 powi 3" using assms(2) by simp
  ultimately have "f64_nearest t \<le> of_int 45 * 2 powi 3"
    using assms(1) by (intro f64_nearest_le)
  then show "f64_nearest t \<le> 360" by simp
qed

lemma np_mod_360_range: "\<exists>v. np_mod x 360 = Fin v \<and> 0 \<le> v \<and> v \<le> 360"
proof (cases "0 \<le> x")
  case True
  from np_mod_nonneg [OF this] show ?thesis by (intro exI conjI) (assumption, simp_all)
next
  case False
  then have x: "x < 0" by simp
  let ?m = "x - 360 * of_int \<lceil>x / 360\<rceil>"
  note n = np_mod_negative [OF x]
  show ?thesis
  proof (cases "?m = 0")
    case True
    then show ?thesis using n(1) by simp
  next
    case False
    then have "0 < ?m + 360" "?m + 360 < 360" using n(2,3) by simp_all
    from f64_nearest_below_360 [OF this] show ?thesis
      using n(1) False by simp
  qed
qed

text \<open>
  Claim C9 as stated (every reported backazimuth lies in \<open>[0, 360)\<close>) fails on the code.
  For the raw backazimuth \<open>-2^-70\<close> the C remainder is \<open>-2^-70\<close> itself, and
  \<open>-2^-70 + 360\<close> rounds to \<^verbatim>\<open>360.0\<close>: that is the backazimuth reported.
\<close>

theorem backazimuths_reach_360:
  "backazimuths [[0, 1, 1, - (1 / 2 ^ 70), 2]] = Inr [Fin 360]"
proof -
  have "f64_nearest (- (1 / 2 ^ 70) + 360) = 2 powi (8 - 52) * of_int 6333186975989760"
    by (rule f64_nearest_eval) simp_all
  then have r: "f64_nearest (- (1 / 2 ^ 70) + 360) = 360" by simp
  have "np_mod (- (1 / 2 ^ 70)) 360 = Fin (f64_nearest (- (1 / 2 ^ 70) + 360))"
    by (rule np_mod_small_negative) simp_all
  then have "np_mod (- (1 / 2 ^ 70)) 360 = Fin 360" unfolding r .
  then show ?thesis
    by (simp add: backazimuths_def column_def)
qed

text \<open>
  Claim C9, as amended: for a table \<open>slid_fk\<close> whose rows have the backazimuth column,
  the cell returns one backazimuth for every row, and each is a finite value in the
  closed interval \<open>[0, 360]\<close>.
\<close>

theorem backazimuths_within_closed_range:
  assumes "\<forall>r \<in> set slid_fk. 3 < length r"
  shows "\<exists>B. backazimuths slid_fk = Inr B \<and> length B = length slid_fk \<and>
           (\<forall>b \<in> set B. \<exists>v. b = Fin v \<and> 0 \<le> v \<and> v \<le> 360)"
proof -
  have "column slid_fk 3 = Inr (map (\<lambda>r. r ! 3) slid_fk)"
    using assms by (simp add: column_def list_all_iff)
  then have "backazimuths slid_fk = Inr (map (\<lambda>x. np_mod x 360) (map (\<lambda>r. r ! 3) slid_fk))"
    by (simp add: backazimuths_def)
  then show ?thesis using np_mod_360_range by auto
qed

lemma f64_nearest_270: "f64_nearest 270 = 270"
proof -
  have "f64_nearest 270 = 2 powi (8 - 52) * of_int 4749890231992320"
    by (rule f64_nearest_eval) simp_all
  then show ?thesis by simp
qed

theorem backazimuths_within_closed_range_witness:
  "backazimuths [[0, 1, 1, -90, 2], [1, 1, 1, 450, 2]] = Inr [Fin 270, Fin 90]"
proof -
  have "np_mod (-90) 360 = Fin (f64_nearest (-90 + 360))"
    by (rule np_mod_small_negative) simp_all
  then have a: "np_mod (-90) 360 = Fin 270" by (simp add: f64_nearest_270)
  have b: "np_mod 450 360 = Fin 90"
    using np_mod_nonneg(1) [of 450] by simp
  have h: "backazimuths [[0, 1, 1, -90, 2], [1, 1, 1, 450, 2]] = Inr [Fin 270, Fin 90]"
    by (simp add: backazimuths_def column_def a b)
  have r: "\<forall>r \<in> set [[0, 1, 1, -90, 2], [1, 1, 1, 450, 2 :: real]]. 3 < length r" by simp
  from backazimuths_within_closed_range [OF r] obtain B where
    "backazimuths [[0, 1, 1, -90, 2], [1, 1, 1, 450, 2]] = Inr B"
    "\<forall>b \<in> set B. \<exists>v. b = Fin v \<and> 0 \<le> v \<and> v \<le> 360"
    by blast
  with h show ?thesis by simp
qed

end
